theory Spec2Isabelle
  imports Main
begin

section \<open>JavaScript strings\<close>

text \<open>
  The console (the component \<open>AICommandLine\<close>) works on JavaScript strings, which are
  sequences of UTF-16 code units. A string is modelled as the list of its code units;
  \<open>asc\<close> turns an ASCII literal into such a list, and a code unit outside ASCII is written
  as its number (the Vietnamese letters of the rule tables are all in the Basic
  Multilingual Plane and precomposed, one code unit each).
\<close>

type_synonym jsstring = "nat list"

definition asc :: "string \<Rightarrow> jsstring" where
  "asc s = map of_char s"

text \<open>
  White space as \<open>String.prototype.trim\<close> and the regular expression class \<open>\s\<close> read it:
  TAB, LF, VT, FF, CR, SPACE, NBSP, U+1680, U+2000..U+200A, U+2028, U+2029, U+202F,
  U+205F, U+3000 and U+FEFF.
\<close>

definition isWhiteSpace :: "nat \<Rightarrow> bool" where
  "isWhiteSpace c \<longleftrightarrow>
     c \<in> set [9, 10, 11, 12, 13, 32, 160, 5760, 8232, 8233, 8239, 8287, 12288, 65279]
     \<or> (8192 \<le> c \<and> c \<le> 8202)"

definition isWordChar :: "nat \<Rightarrow> bool" where
  "isWordChar c \<longleftrightarrow>
     (48 \<le> c \<and> c \<le> 57) \<or> (65 \<le> c \<and> c \<le> 90) \<or> (97 \<le> c \<and> c \<le> 122) \<or> c = 95"

definition isLineTerminator :: "nat \<Rightarrow> bool" where
  "isLineTerminator c \<longleftrightarrow> c \<in> set [10, 13, 8232, 8233]"

definition trim :: "jsstring \<Rightarrow> jsstring" where
  "trim s = rev (dropWhile isWhiteSpace (rev (dropWhile isWhiteSpace s)))"

text \<open>
  \<open>String.prototype.toLowerCase\<close>. The console only ever compares a lower-cased text with
  ASCII keywords, so the model is exact on what decides those comparisons: the ASCII
  capitals, and the two code units outside ASCII whose lower-case form contains an ASCII
  letter (U+0130 becomes \<open>i\<close> followed by U+0307, and the Kelvin sign U+212A becomes \<open>k\<close>).
  Every other code unit has a lower-case form outside ASCII and is left as it is.
\<close>

definition lowerUnit :: "nat \<Rightarrow> jsstring" where
  "lowerUnit c =
     (if 65 \<le> c \<and> c \<le> 90 then [c + 32]
      else if c = 304 then [105, 775]
      else if c = 8490 then [107]
      else [c])"

definition toLowerCase :: "jsstring \<Rightarrow> jsstring" where
  "toLowerCase s = concat (map lowerUnit s)"

definition startsWith :: "jsstring \<Rightarrow> jsstring \<Rightarrow> bool" where
  "startsWith s p \<longleftrightarrow> take (length p) s = p"

definition endsWith :: "jsstring \<Rightarrow> jsstring \<Rightarrow> bool" where
  "endsWith s p \<longleftrightarrow> length p \<le> length s \<and> drop (length s - length p) s = p"

text \<open>\<open>Array.prototype.join\<close> on an array of strings.\<close>

fun join :: "jsstring \<Rightarrow> jsstring list \<Rightarrow> jsstring" where
  "join sep [] = []"
| "join sep [x] = x"
| "join sep (x # y # ys) = x @ sep @ join sep (y # ys)"

text \<open>\<open>String.prototype.padEnd\<close> with the default filler, a space.\<close>

definition padEnd :: "jsstring \<Rightarrow> nat \<Rightarrow> jsstring" where
  "padEnd s n = s @ replicate (n - length s) 32"

text \<open>The decimal text of a natural number, as a template literal prints an array length.\<close>

fun digitsRev :: "nat \<Rightarrow> nat \<Rightarrow> jsstring" where
  "digitsRev 0 n = []"
| "digitsRev (Suc fuel) n =
     (48 + n mod 10) # (if n < 10 then [] else digitsRev fuel (n div 10))"

definition natText :: "nat \<Rightarrow> jsstring" where
  "natText n = rev (digitsRev (Suc n) n)"

text \<open>
  \<open>String.prototype.replace\<close> with a string pattern: the first occurrence of the pattern is
  replaced. The replacement text is not taken literally: JavaScript expands \<open>$$\<close> to a
  dollar sign, \<open>$&\<close> to the matched text, \<open>$`\<close> to the text before the match and \<open>$'\<close>
  to the text after it (\<open>GetSubstitution\<close>; with a string pattern there are no capture
  groups, so \<open>$1\<close> .. \<open>$99\<close> and \<open>$<\<close> stay as they are).
\<close>

fun splitFirst :: "jsstring \<Rightarrow> jsstring \<Rightarrow> (jsstring \<times> jsstring) option" where
  "splitFirst pat [] = (if pat = [] then Some ([], []) else None)"
| "splitFirst pat (x # xs) =
     (if take (length pat) (x # xs) = pat then Some ([], drop (length pat) (x # xs))
      else map_option (\<lambda>(b, a). (x # b, a)) (splitFirst pat xs))"

fun getSubstitution :: "jsstring \<Rightarrow> jsstring \<Rightarrow> jsstring \<Rightarrow> jsstring \<Rightarrow> jsstring" where
  "getSubstitution matched before after [] = []"
| "getSubstitution matched before after [c] = [c]"
| "getSubstitution matched before after (c # d # r) =
     (if c = 36 \<and> d = 36 then 36 # getSubstitution matched before after r
      else if c = 36 \<and> d = 38 then matched @ getSubstitution matched before after r
      else if c = 36 \<and> d = 96 then before @ getSubstitution matched before after r
      else if c = 36 \<and> d = 39 then after @ getSubstitution matched before after r
      else c # getSubstitution matched before after (d # r))"

definition replaceString :: "jsstring \<Rightarrow> jsstring \<Rightarrow> jsstring \<Rightarrow> jsstring" where
  "replaceString pat repl s =
     (case splitFirst pat s of
        None \<Rightarrow> s
      | Some (b, a) \<Rightarrow> b @ getSubstitution pat b a repl @ a)"

section \<open>Regular expressions\<close>

text \<open>
  The rule tables are regular expressions with the flag \<open>i\<close> and without the flag \<open>u\<close>.
  The model is a backtracking matcher for the constructs the tables use. A match state
  is the position, the text still to read and the capture groups closed so far; a
  matcher returns the list of the states it can end in, in the order in which the
  backtracking of JavaScript tries them, so that the head of the list is the match
  JavaScript finds.

  Under the flag \<open>i\<close> two code units match when \<open>Canonicalize\<close> gives the same for both: the
  upper-case form of the unit, unless that is longer than one unit or turns a unit
  outside ASCII into ASCII. \<open>canonicalize\<close> is exact on ASCII and on the letters outside
  ASCII that occur in the tables (each of them has one lower-case and one upper-case
  form and no other code unit shares its upper-case form); any other code unit is left
  as it is, which does not change what matches the patterns of the tables.
\<close>

definition upperCaseTable :: "(nat \<times> nat) list" where
  "upperCaseTable =
    [(224, 192), (234, 202), (236, 204), (243, 211), (259, 258), (273, 272), (432, 431),
     (7843, 7842), (7845, 7844), (7847, 7846), (7855, 7854), (7871, 7870), (7875, 7874),
     (7883, 7882), (7889, 7888), (7899, 7898), (7907, 7906), (7915, 7914)]"

definition canonicalize :: "nat \<Rightarrow> nat" where
  "canonicalize c =
     (if 97 \<le> c \<and> c \<le> 122 then c - 32
      else case map_of upperCaseTable c of Some u \<Rightarrow> u | None \<Rightarrow> c)"

text \<open>
  One-character matchers: a literal, the negated class \<open>[^c]\<close>, \<open>\s\<close>, \<open>\w\<close> and the dot.
  No code unit outside \<open>\s\<close>, \<open>\w\<close> or the line terminators is mapped into them by
  \<open>Canonicalize\<close>, so for these three the flag \<open>i\<close> changes nothing.
\<close>

datatype cclass = Chr nat | NotChr nat | Sp | Wd | Dot

fun cmatch :: "cclass \<Rightarrow> nat \<Rightarrow> bool" where
  "cmatch (Chr p) c = (canonicalize c = canonicalize p)"
| "cmatch (NotChr p) c = (canonicalize c \<noteq> canonicalize p)"
| "cmatch Sp c = isWhiteSpace c"
| "cmatch Wd c = isWordChar c"
| "cmatch Dot c = (\<not> isLineTerminator c)"

text \<open>
  \<open>One c\<close> is a single character, \<open>Plus c\<close> and \<open>Star c\<close> are the greedy \<open>c+\<close> and \<open>c*\<close>,
  \<open>Opt r\<close> is \<open>(?:r)?\<close>, \<open>Alt [r1, r2, ...]\<close> is \<open>(?:r1|r2|...)\<close>, \<open>Grp r\<close> is the capture
  group \<open>(r)\<close>, \<open>NotAhead r\<close> is \<open>(?!r)\<close>, and \<open>Bol\<close> and \<open>Eol\<close> are \<open>^\<close> and \<open>$\<close> (no flag \<open>m\<close>:
  the ends of the whole text). In the tables every quantifier but \<open>?\<close> stands on a single
  character, every capture group stands at the top level of its pattern, and no group
  is optional or nested, so groups close in the order of their numbers.
\<close>

datatype rx =
    One cclass
  | Plus cclass
  | Star cclass
  | Opt "rx list"
  | Alt "rx list list"
  | Grp "rx list"
  | NotAhead "rx list"
  | Bol
  | Eol

type_synonym mstate = "nat \<times> jsstring \<times> jsstring list"

text \<open>
  The ends a greedy repetition of one character class can reach from a position, the
  longest first and the empty repetition last.
\<close>

fun greedy :: "cclass \<Rightarrow> nat \<Rightarrow> jsstring \<Rightarrow> (nat \<times> jsstring) list" where
  "greedy c p [] = [(p, [])]"
| "greedy c p (x # xs) =
     (if cmatch c x then greedy c (Suc p) xs @ [(p, x # xs)] else [(p, x # xs)])"

fun matchOne :: "rx \<Rightarrow> mstate \<Rightarrow> mstate list"
  and matchSeq :: "rx list \<Rightarrow> mstate \<Rightarrow> mstate list"
  and matchAlt :: "rx list list \<Rightarrow> mstate \<Rightarrow> mstate list" where
  "matchOne (One c) (p, rest, cs) =
     (case rest of [] \<Rightarrow> [] | x # xs \<Rightarrow> if cmatch c x then [(Suc p, xs, cs)] else [])"
| "matchOne (Plus c) (p, rest, cs) =
     (case rest of
        [] \<Rightarrow> []
      | x # xs \<Rightarrow>
          if cmatch c x then map (\<lambda>(q, r). (q, r, cs)) (greedy c (Suc p) xs) else [])"
| "matchOne (Star c) (p, rest, cs) = map (\<lambda>(q, r). (q, r, cs)) (greedy c p rest)"
| "matchOne (Opt rs) st = matchSeq rs st @ [st]"
| "matchOne (Alt rss) st = matchAlt rss st"
| "matchOne (Grp rs) (p, rest, cs) =
     map (\<lambda>(q, r, cs'). (q, r, cs' @ [take (q - p) rest])) (matchSeq rs (p, rest, cs))"
| "matchOne (NotAhead rs) st = (if matchSeq rs st = [] then [st] else [])"
| "matchOne Bol (p, rest, cs) = (if p = 0 then [(p, rest, cs)] else [])"
| "matchOne Eol (p, rest, cs) = (if rest = [] then [(p, rest, cs)] else [])"
| "matchSeq [] st = [st]"
| "matchSeq (r # rs) st = concat (map (matchSeq rs) (matchOne r st))"
| "matchAlt [] st = []"
| "matchAlt (rs # rss) st = matchSeq rs st @ matchAlt rss st"

text \<open>
  \<open>RegExp.prototype.exec\<close> from a position: the leftmost position at which the pattern
  matches, with the first match the backtracking finds there.
\<close>

fun search :: "rx list \<Rightarrow> nat \<Rightarrow> jsstring \<Rightarrow> mstate option" where
  "search re p [] = (case matchSeq re (p, [], []) of [] \<Rightarrow> None | st # _ \<Rightarrow> Some st)"
| "search re p (x # xs) =
     (case matchSeq re (p, x # xs, []) of
        [] \<Rightarrow> search re (Suc p) xs
      | st # _ \<Rightarrow> Some st)"

text \<open>
  \<open>pattern.test(text)\<close>. The correction patterns carry the flag \<open>g\<close>, under which \<open>test\<close>
  starts at \<open>lastIndex\<close> and leaves it behind the match; \<open>fixSQLTypos\<close> follows every
  successful \<open>test\<close> with a \<open>replace\<close> of the same pattern, which starts from 0 and leaves
  \<open>lastIndex\<close> at 0, and a failing \<open>test\<close> resets it to 0 as well. Every \<open>test\<close> of the
  console therefore starts at 0, as here.
\<close>

definition regexTest :: "rx list \<Rightarrow> jsstring \<Rightarrow> bool" where
  "regexTest re s \<longleftrightarrow> search re 0 s \<noteq> None"

text \<open>
  \<open>text.match(pattern)\<close> for a pattern without the flag \<open>g\<close>: the capture groups of the
  first match (the elements 1, 2, ... of the array JavaScript returns), or \<open>None\<close> for
  \<open>null\<close>.
\<close>

definition regexMatch :: "rx list \<Rightarrow> jsstring \<Rightarrow> jsstring list option" where
  "regexMatch re s = map_option (\<lambda>(q, r, cs). cs) (search re 0 s)"

text \<open>
  \<open>text.replace(pattern, fix)\<close> for a pattern with the flag \<open>g\<close>: every match, from left to
  right and without overlap, is replaced. A match that reads nothing is replaced too,
  after which JavaScript moves on by one code unit. None of the replacement texts of the
  correction table contains a dollar sign, so they are inserted as they are.
\<close>

function replaceFrom :: "rx list \<Rightarrow> jsstring \<Rightarrow> nat \<Rightarrow> jsstring \<Rightarrow> jsstring" where
  "replaceFrom re fix p [] = (case matchSeq re (p, [], []) of [] \<Rightarrow> [] | st # _ \<Rightarrow> fix)"
| "replaceFrom re fix p (x # xs) =
     (case matchSeq re (p, x # xs, []) of
        [] \<Rightarrow> x # replaceFrom re fix (Suc p) xs
      | (q, rest', cs) # _ \<Rightarrow>
          if length rest' < length (x # xs) then fix @ replaceFrom re fix q rest'
          else fix @ x # replaceFrom re fix (Suc p) xs)"
  by pat_completeness auto
termination
  by (relation "measure (\<lambda>(re, fix, p, s). length s)") auto

definition regexReplaceAll :: "rx list \<Rightarrow> jsstring \<Rightarrow> jsstring \<Rightarrow> jsstring" where
  "regexReplaceAll re fix s = replaceFrom re fix 0 s"

text \<open>A run of literal characters of a pattern.\<close>

definition lit :: "jsstring \<Rightarrow> rx list" where
  "lit s = map (\<lambda>c. One (Chr c)) s"

section \<open>The rule tables\<close>

record rule =
  pattern :: "rx list"

datatype level = High | Medium

record DangerousCommand = rule +
  warning :: jsstring
  level :: level

text \<open>
  \<open>dangerousCommands\<close>, in the order of the source:
  \<^verbatim>\<open>/^DROP\s+TABLE\s+/i\<close>, \<^verbatim>\<open>/^DROP\s+DATABASE\s+/i\<close>,
  \<^verbatim>\<open>/^DELETE\s+FROM\s+\w+\s*;?\s*$/i\<close>, \<^verbatim>\<open>/^TRUNCATE\s+/i\<close> (all \<open>high\<close>) and
  \<^verbatim>\<open>/^UPDATE\s+\w+\s+SET\s+[^W]*$/i\<close> (\<open>medium\<close>). The warnings are Vietnamese texts,
  given by their code units.
\<close>

definition dangerousCommands :: "DangerousCommand list" where
  "dangerousCommands =
   [\<lparr>pattern = [Bol] @ lit (asc ''DROP'') @ [Plus Sp] @ lit (asc ''TABLE'') @ [Plus Sp],
     warning = [9888, 65039] @ asc '' NGUY HI'' @ [7874] @ asc ''M: L'' @ [7879] @ asc ''nh n''
        @ [224] @ asc ''y s'' @ [7869] @ asc '' X'' @ [211] @ asc ''A V'' @ [296]
        @ asc ''NH VI'' @ [7876] @ asc ''N b'' @ [7843] @ asc ''ng v'' @ [224] @ asc '' t''
        @ [7845] @ asc ''t c'' @ [7843] @ asc '' d'' @ [7919] @ asc '' li'' @ [7879]
        @ asc ''u!'',
     level = High\<rparr>,
    \<lparr>pattern = [Bol] @ lit (asc ''DROP'') @ [Plus Sp] @ lit (asc ''DATABASE'') @ [Plus Sp],
     warning = [55357, 57000] @ asc '' C'' @ [7920] @ asc ''C K'' @ [7922] @ asc '' NGUY HI''
        @ [7874] @ asc ''M: L'' @ [7879] @ asc ''nh n'' @ [224] @ asc ''y s'' @ [7869]
        @ asc '' X'' @ [211] @ asc ''A TO'' @ [192] @ asc ''N B'' @ [7896]
        @ asc '' DATABASE!'',
     level = High\<rparr>,
    \<lparr>pattern = [Bol] @ lit (asc ''DELETE'') @ [Plus Sp] @ lit (asc ''FROM'')
        @ [Plus Sp, Plus Wd, Star Sp, Opt [One (Chr 59)], Star Sp, Eol],
     warning = [9888, 65039] @ asc '' C'' @ [7842] @ asc ''NH B'' @ [193]
        @ asc ''O: DELETE kh'' @ [244] @ asc ''ng c'' @ [243] @ asc '' WHERE s'' @ [7869]
        @ asc '' x'' @ [243] @ asc ''a T'' @ [7844] @ asc ''T C'' @ [7842] @ asc '' d''
        @ [7919] @ asc '' li'' @ [7879] @ asc ''u!'',
     level = High\<rparr>,
    \<lparr>pattern = [Bol] @ lit (asc ''TRUNCATE'') @ [Plus Sp],
     warning = [9888, 65039] @ asc '' C'' @ [7842] @ asc ''NH B'' @ [193]
        @ asc ''O: TRUNCATE s'' @ [7869] @ asc '' x'' @ [243] @ asc ''a to'' @ [224]
        @ asc ''n b'' @ [7897] @ asc '' d'' @ [7919] @ asc '' li'' @ [7879]
        @ asc ''u trong b'' @ [7843] @ asc ''ng!'',
     level = High\<rparr>,
    \<lparr>pattern = [Bol] @ lit (asc ''UPDATE'') @ [Plus Sp, Plus Wd, Plus Sp] @ lit (asc ''SET'')
        @ [Plus Sp, Star (NotChr 87), Eol],
     warning = [9888, 65039] @ asc '' C'' @ [7842] @ asc ''NH B'' @ [193]
        @ asc ''O: UPDATE kh'' @ [244] @ asc ''ng c'' @ [243] @ asc '' WHERE s'' @ [7869]
        @ asc '' c'' @ [7853] @ asc ''p nh'' @ [7853] @ asc ''t T'' @ [7844] @ asc ''T C''
        @ [7842] @ asc '' h'' @ [224] @ asc ''ng!'',
     level = Medium\<rparr>]"

record VietnameseMapping = rule +
  template :: jsstring

text \<open>
  \<open>vietnameseToSQL\<close>, in the order of the source (letters outside ASCII written
  \<open>\uXXXX\<close>):
  \<^verbatim>\<open>/l\u1EA5y\s+t\u1EA5t\s+c\u1EA3\s+(?:t\u1EEB\s+)?(?:b\u1EA3ng\s+)?(\w+)/i\<close>,
  \<^verbatim>\<open>/\u0111\u1EBFm\s+(?:s\u1ED1\s+)?(?:l\u01B0\u1EE3ng\s+)?(?:trong\s+)?(?:b\u1EA3ng\s+)?(\w+)/i\<close>,
  \<^verbatim>\<open>/xem\s+(?:b\u1EA3ng\s+)?(\w+)/i\<close>,
  \<^verbatim>\<open>/hi\u1EC3n\s+th\u1ECB\s+(?:t\u1EA5t\s+c\u1EA3\s+)?(?:b\u1EA3ng\s+)?(\w+)/i\<close>,
  \<^verbatim>\<open>/t\u00ECm\s+(.+)\s+trong\s+(\w+)\s+(?:v\u1EDBi|c\u00F3|where)\s+(.+)/i\<close>,
  \<^verbatim>\<open>/s\u1EAFp\s+x\u1EBFp\s+(\w+)\s+theo\s+(\w+)\s+(?:t\u0103ng|t\u0103ng\s+d\u1EA7n)/i\<close>,
  \<^verbatim>\<open>/s\u1EAFp\s+x\u1EBFp\s+(\w+)\s+theo\s+(\w+)\s+(?:gi\u1EA3m|gi\u1EA3m\s+d\u1EA7n)/i\<close>,
  \<^verbatim>\<open>/th\u00EAm\s+(.+)\s+v\u00E0o\s+(\w+)/i\<close> and
  \<^verbatim>\<open>/x\u00F3a\s+(?:t\u1EEB\s+)?(\w+)\s+(?:v\u1EDBi|c\u00F3|where)\s+(.+)/i\<close>.
\<close>

definition vietnameseToSQL :: "VietnameseMapping list" where
  "vietnameseToSQL =
   [\<lparr>pattern = lit (asc ''l'' @ [7845] @ asc ''y'') @ [Plus Sp]
        @ lit (asc ''t'' @ [7845] @ asc ''t'') @ [Plus Sp] @ lit (asc ''c'' @ [7843])
        @ [Plus Sp, Opt (lit (asc ''t'' @ [7915]) @ [Plus Sp]),
           Opt (lit (asc ''b'' @ [7843] @ asc ''ng'') @ [Plus Sp]), Grp [Plus Wd]],
     template = asc ''SELECT * FROM $1''\<rparr>,
    \<lparr>pattern = lit ([273, 7871] @ asc ''m'')
        @ [Plus Sp, Opt (lit (asc ''s'' @ [7889]) @ [Plus Sp]),
           Opt (lit (asc ''l'' @ [432, 7907] @ asc ''ng'') @ [Plus Sp]),
           Opt (lit (asc ''trong'') @ [Plus Sp]),
           Opt (lit (asc ''b'' @ [7843] @ asc ''ng'') @ [Plus Sp]), Grp [Plus Wd]],
     template = asc ''SELECT COUNT(*) FROM $1''\<rparr>,
    \<lparr>pattern = lit (asc ''xem'')
        @ [Plus Sp, Opt (lit (asc ''b'' @ [7843] @ asc ''ng'') @ [Plus Sp]), Grp [Plus Wd]],
     template = asc ''SELECT * FROM $1''\<rparr>,
    \<lparr>pattern = lit (asc ''hi'' @ [7875] @ asc ''n'') @ [Plus Sp] @ lit (asc ''th'' @ [7883])
        @ [Plus Sp,
           Opt (lit (asc ''t'' @ [7845] @ asc ''t'') @ [Plus Sp] @ lit (asc ''c'' @ [7843])
                @ [Plus Sp]),
           Opt (lit (asc ''b'' @ [7843] @ asc ''ng'') @ [Plus Sp]), Grp [Plus Wd]],
     template = asc ''SELECT * FROM $1''\<rparr>,
    \<lparr>pattern = lit (asc ''t'' @ [236] @ asc ''m'') @ [Plus Sp, Grp [Plus Dot], Plus Sp]
        @ lit (asc ''trong'')
        @ [Plus Sp, Grp [Plus Wd], Plus Sp,
           Alt [lit (asc ''v'' @ [7899] @ asc ''i''), lit (asc ''c'' @ [243]),
                lit (asc ''where'')],
           Plus Sp, Grp [Plus Dot]],
     template = asc ''SELECT $1 FROM $2 WHERE $3''\<rparr>,
    \<lparr>pattern = lit (asc ''s'' @ [7855] @ asc ''p'') @ [Plus Sp]
        @ lit (asc ''x'' @ [7871] @ asc ''p'') @ [Plus Sp, Grp [Plus Wd], Plus Sp]
        @ lit (asc ''theo'')
        @ [Plus Sp, Grp [Plus Wd], Plus Sp,
           Alt [lit (asc ''t'' @ [259] @ asc ''ng''),
                lit (asc ''t'' @ [259] @ asc ''ng'') @ [Plus Sp]
                  @ lit (asc ''d'' @ [7847] @ asc ''n'')]],
     template = asc ''SELECT * FROM $1 ORDER BY $2 ASC''\<rparr>,
    \<lparr>pattern = lit (asc ''s'' @ [7855] @ asc ''p'') @ [Plus Sp]
        @ lit (asc ''x'' @ [7871] @ asc ''p'') @ [Plus Sp, Grp [Plus Wd], Plus Sp]
        @ lit (asc ''theo'')
        @ [Plus Sp, Grp [Plus Wd], Plus Sp,
           Alt [lit (asc ''gi'' @ [7843] @ asc ''m''),
                lit (asc ''gi'' @ [7843] @ asc ''m'') @ [Plus Sp]
                  @ lit (asc ''d'' @ [7847] @ asc ''n'')]],
     template = asc ''SELECT * FROM $1 ORDER BY $2 DESC''\<rparr>,
    \<lparr>pattern = lit (asc ''th'' @ [234] @ asc ''m'') @ [Plus Sp, Grp [Plus Dot], Plus Sp]
        @ lit (asc ''v'' @ [224] @ asc ''o'') @ [Plus Sp, Grp [Plus Wd]],
     template = asc ''INSERT INTO $2 VALUES ($1)''\<rparr>,
    \<lparr>pattern = lit (asc ''x'' @ [243] @ asc ''a'')
        @ [Plus Sp, Opt (lit (asc ''t'' @ [7915]) @ [Plus Sp]), Grp [Plus Wd], Plus Sp,
           Alt [lit (asc ''v'' @ [7899] @ asc ''i''), lit (asc ''c'' @ [243]),
                lit (asc ''where'')],
           Plus Sp, Grp [Plus Dot]],
     template = asc ''DELETE FROM $1 WHERE $2''\<rparr>]"

record Correction = rule +
  fixText :: jsstring
  message :: jsstring

text \<open>
  The message of a correction, \<^verbatim>\<open>'S\u1EEDa l\u1ED7i: WRONG \u2192 RIGHT'\<close> in the source.
\<close>

definition correctionMessage :: "jsstring \<Rightarrow> jsstring \<Rightarrow> jsstring" where
  "correctionMessage wrong right =
     asc ''S'' @ [7917] @ asc ''a l'' @ [7895] @ asc ''i: '' @ wrong @ [32, 8594, 32] @ right"

text \<open>
  \<open>sqlCorrections\<close>, in the order of the source: \<^verbatim>\<open>/SLECT/gi\<close>, \<^verbatim>\<open>/FORM/gi\<close>,
  \<^verbatim>\<open>/WHER(?!E)/gi\<close>, \<^verbatim>\<open>/ODER\s+BY/gi\<close>, \<^verbatim>\<open>/GRUOP\s+BY/gi\<close>, \<^verbatim>\<open>/DELTE/gi\<close>,
  \<^verbatim>\<open>/UDPATE/gi\<close>, \<^verbatim>\<open>/INSET/gi\<close>, \<^verbatim>\<open>/VALEUS/gi\<close> and \<^verbatim>\<open>/JION/gi\<close>.
\<close>

definition sqlCorrections :: "Correction list" where
  "sqlCorrections =
   [\<lparr>pattern = lit (asc ''SLECT''), fixText = asc ''SELECT'',
     message = correctionMessage (asc ''SLECT'') (asc ''SELECT'')\<rparr>,
    \<lparr>pattern = lit (asc ''FORM''), fixText = asc ''FROM'',
     message = correctionMessage (asc ''FORM'') (asc ''FROM'')\<rparr>,
    \<lparr>pattern = lit (asc ''WHER'') @ [NotAhead (lit (asc ''E''))], fixText = asc ''WHERE'',
     message = correctionMessage (asc ''WHER'') (asc ''WHERE'')\<rparr>,
    \<lparr>pattern = lit (asc ''ODER'') @ [Plus Sp] @ lit (asc ''BY''), fixText = asc ''ORDER BY'',
     message = correctionMessage (asc ''ODER BY'') (asc ''ORDER BY'')\<rparr>,
    \<lparr>pattern = lit (asc ''GRUOP'') @ [Plus Sp] @ lit (asc ''BY''), fixText = asc ''GROUP BY'',
     message = correctionMessage (asc ''GRUOP BY'') (asc ''GROUP BY'')\<rparr>,
    \<lparr>pattern = lit (asc ''DELTE''), fixText = asc ''DELETE'',
     message = correctionMessage (asc ''DELTE'') (asc ''DELETE'')\<rparr>,
    \<lparr>pattern = lit (asc ''UDPATE''), fixText = asc ''UPDATE'',
     message = correctionMessage (asc ''UDPATE'') (asc ''UPDATE'')\<rparr>,
    \<lparr>pattern = lit (asc ''INSET''), fixText = asc ''INSERT'',
     message = correctionMessage (asc ''INSET'') (asc ''INSERT'')\<rparr>,
    \<lparr>pattern = lit (asc ''VALEUS''), fixText = asc ''VALUES'',
     message = correctionMessage (asc ''VALEUS'') (asc ''VALUES'')\<rparr>,
    \<lparr>pattern = lit (asc ''JION''), fixText = asc ''JOIN'',
     message = correctionMessage (asc ''JION'') (asc ''JOIN'')\<rparr>]"

section \<open>The stages of the input pipeline\<close>

definition specialCommands :: "jsstring list" where
  "specialCommands =
     [asc ''help'', asc ''clear'', asc ''reset'', asc ''tables'', asc ''yes'', asc ''no'',
      asc ''y'', asc ''n'', asc ''ai on'', asc ''ai off'', asc ''learn on'', asc ''learn off'']"

text \<open>
  \<open>isCommandComplete\<close>: a special command, a \<open>desc\<close>/\<open>describe\<close> line and a line that one of
  the Vietnamese patterns matches need no terminator; anything else is complete when
  its trimmed text ends in a semicolon.
\<close>

definition isCommandComplete :: "jsstring \<Rightarrow> bool" where
  "isCommandComplete text =
     (let trimmed = trim text; lowerTrimmed = toLowerCase trimmed in
      if list_ex (\<lambda>cmd. lowerTrimmed = cmd) specialCommands then True
      else if startsWith lowerTrimmed (asc ''desc '') \<or> startsWith lowerTrimmed (asc ''describe '')
        then True
      else if list_ex (\<lambda>mapping. regexTest (pattern mapping) trimmed) vietnameseToSQL then True
      else endsWith trimmed (asc '';''))"

text \<open>
  \<open>convertVietnameseToSQL\<close>: the first mapping whose pattern matches gives its template,
  in which \<open>$1\<close>, \<open>$2\<close>, ... are replaced one after the other by
  \<open>sql.replace('$' + i, match[i])\<close>, and a semicolon is appended; \<open>None\<close> is \<open>null\<close>.
\<close>

fun substituteGroups :: "jsstring \<Rightarrow> nat \<Rightarrow> jsstring list \<Rightarrow> jsstring" where
  "substituteGroups sql i [] = sql"
| "substituteGroups sql i (g # gs) =
     substituteGroups (replaceString (36 # natText i) g sql) (Suc i) gs"

fun convertWith :: "VietnameseMapping list \<Rightarrow> jsstring \<Rightarrow> jsstring option" where
  "convertWith [] text = None"
| "convertWith (mapping # rest) text =
     (case regexMatch (pattern mapping) text of
        Some groups \<Rightarrow> Some (substituteGroups (template mapping) 1 groups @ asc '';'')
      | None \<Rightarrow> convertWith rest text)"

definition convertVietnameseToSQL :: "jsstring \<Rightarrow> jsstring option" where
  "convertVietnameseToSQL text = convertWith vietnameseToSQL text"

text \<open>
  \<open>fixSQLTypos\<close>: every correction whose pattern occurs in the text corrected so far is
  applied to all its occurrences, and its message is recorded.
\<close>

record TypoFix =
  fixed :: jsstring
  corrections :: "jsstring list"

fun applyCorrections :: "Correction list \<Rightarrow> TypoFix \<Rightarrow> TypoFix" where
  "applyCorrections [] acc = acc"
| "applyCorrections (correction # rest) acc =
     (if regexTest (pattern correction) (fixed acc)
      then applyCorrections rest
             \<lparr>fixed = regexReplaceAll (pattern correction) (fixText correction) (fixed acc),
              corrections = corrections acc @ [message correction]\<rparr>
      else applyCorrections rest acc)"

definition fixSQLTypos :: "jsstring \<Rightarrow> TypoFix" where
  "fixSQLTypos sql = applyCorrections sqlCorrections \<lparr>fixed = sql, corrections = []\<rparr>"

text \<open>\<open>checkDangerousCommand\<close>: the first rule whose pattern matches the trimmed text.\<close>

definition checkDangerousCommand :: "jsstring \<Rightarrow> DangerousCommand option" where
  "checkDangerousCommand sql =
     find (\<lambda>dangerous. regexTest (pattern dangerous) (trim sql)) dangerousCommands"

section \<open>The session\<close>

subsection \<open>Results, transcript entries and the session state\<close>

text \<open>
  A cell of a result is a string, a number or \<open>null\<close>. JavaScript numbers are floating
  point; the type of numbers is a parameter \<open>'n\<close>, and their decimal text (\<open>String(x)\<close>, or
  a number in a template literal) is the function \<open>numberText\<close> of the environment below.
\<close>

datatype 'n cell = CStr jsstring | CNum 'n | CNull

record 'n table =
  columns :: "jsstring list"
  rows :: "'n cell list list"

text \<open>
  What \<open>executeSQL\<close> returns. \<open>error\<close> and \<open>affectedRows\<close> are optional fields (\<open>None\<close> is
  \<open>undefined\<close>).
\<close>

record 'n result = "'n table" +
  error :: "jsstring option"
  affectedRows :: "nat option"
  executionTime :: 'n

datatype entry_type = TInput | TContinuation | TResult | TError | TWarning | TInfo | TAi

text \<open>
  \<open>CommandEntry\<close>, without its \<open>timestamp\<close> (the wall-clock time of the entry, which nothing
  in the console reads).
\<close>

record 'n CommandEntry =
  entry_id :: nat
  entry_type :: entry_type
  content :: jsstring
  entry_table :: "'n table option"

text \<open>
  The state of the component: its \<open>useState\<close> cells (all but \<open>showSettings\<close>, which only
  folds a panel), the counter \<open>idCounter\<close>, and the store of the query engine
  (\<open>database\<close>). Two more fields observe the run and are never read by the console:
  \<open>executed\<close> lists the texts passed to \<open>executeSQL\<close>, and \<open>submitted\<close> the texts passed to
  \<open>executeCommand\<close>, both oldest first.
\<close>

record ('db, 'n) state =
  buffer :: "jsstring list"
  currentLine :: jsstring
  history :: "'n CommandEntry list"
  commandHistory :: "jsstring list"
  historyIndex :: int
  aiEnabled :: bool
  learningMode :: bool
  pendingDangerousCommand :: "jsstring option"
  isMultiLine :: bool
  idCounter :: nat
  database :: 'db
  executed :: "jsstring list"
  submitted :: "jsstring list"

definition init :: "'db \<Rightarrow> ('db, 'n) state" where
  "init d =
     \<lparr>buffer = [], currentLine = [], history = [], commandHistory = [], historyIndex = - 1,
      aiEnabled = True, learningMode = True, pendingDangerousCommand = None,
      isMultiLine = False, idCounter = 0, database = d, executed = [], submitted = []\<rparr>"

text \<open>
  What the console uses and this file does not define: the query engine of the hook
  \<open>useSQLEngine\<close> (\<open>executeSQL\<close> and \<open>resetDB\<close>, acting on the store), the text of a number,
  and the three functions that only write advice for the learner (\<open>explainSQL\<close>,
  \<open>getOptimizationTips\<close> and \<open>getErrorHelp\<close>, whose results are shown in entries of type
  \<open>ai\<close> and decide nothing else). Every theorem below holds for all of them.
\<close>

record ('db, 'n) env =
  executeSQL :: "'db \<Rightarrow> jsstring \<Rightarrow> 'n result \<times> 'db"
  resetDB :: "'db \<Rightarrow> 'db"
  numberText :: "'n \<Rightarrow> jsstring"
  explainSQL :: "jsstring \<Rightarrow> jsstring"
  getOptimizationTips :: "jsstring \<Rightarrow> jsstring list"
  getErrorHelp :: "jsstring \<Rightarrow> jsstring option"

text \<open>
  A handler ends normally or throws. React applies the state updates a handler queued
  before it threw, so both outcomes carry a state.
\<close>

datatype 'a outcome = Done 'a | Threw 'a

fun stateOf :: "'a outcome \<Rightarrow> 'a" where
  "stateOf (Done s) = s"
| "stateOf (Threw s) = s"

definition addEntry ::
  "entry_type \<Rightarrow> jsstring \<Rightarrow> 'n table option \<Rightarrow> ('db, 'n) state \<Rightarrow> ('db, 'n) state" where
  "addEntry t c tbl st =
     st\<lparr>history := history st @
           [\<lparr>entry_id = idCounter st, entry_type = t, content = c, entry_table = tbl\<rparr>],
        idCounter := Suc (idCounter st)\<rparr>"

subsection \<open>The texts of the transcript\<close>

text \<open>The usage text of \<open>help\<close> (a template literal of 36 lines).\<close>

definition helpText :: jsstring where
  "helpText =
    [10, 55357, 56538] @ asc '' H'' @ [431, 7898] @ asc ''NG D'' @ [7850] @ asc ''N S''
    @ [7916] @ asc '' D'' @ [7908] @ asc ''NG (GI'' @ [7888] @ asc ''NG MYSQL CLI):'' @ [10]
    @ replicate 59 9552 @ [10] @ asc ''  '' @ [10, 9000, 65039] @ asc ''  C'' @ [193]
    @ asc ''CH NH'' @ [7852] @ asc ''P L'' @ [7878] @ asc ''NH:'' @ [10] @ replicate 60 9472
    @ [10] @ asc ''  '' @ [8226] @ asc '' Enter        = Xu'' @ [7889] @ asc ''ng d''
    @ [242] @ asc ''ng (ti'' @ [7871] @ asc ''p t'' @ [7909] @ asc ''c nh'' @ [7853]
    @ asc ''p)'' @ [10] @ asc ''  '' @ [8226] @ asc '' K'' @ [7871] @ asc ''t th'' @ [250]
    @ asc ''c ;   = Th'' @ [7921] @ asc ''c thi l'' @ [7879] @ asc ''nh t'' @ [7921]
    @ asc '' '' @ [273, 7897] @ asc ''ng  '' @ [10] @ asc ''  '' @ [8226]
    @ asc '' Ctrl+Enter   = Th'' @ [7921] @ asc ''c thi ngay (kh'' @ [244] @ asc ''ng c''
    @ [7847] @ asc ''n ;)'' @ [10] @ asc ''  '' @ [8226] @ asc '' '' @ [8593] @ asc '' / ''
    @ [8595] @ asc ''        = Duy'' @ [7879] @ asc ''t l'' @ [7883] @ asc ''ch s'' @ [7917]
    @ asc '' l'' @ [7879] @ asc ''nh'' @ [10] @ asc ''  '' @ [8226]
    @ asc '' Ctrl+L       = X'' @ [243] @ asc ''a m'' @ [224] @ asc ''n h'' @ [236]
    @ asc ''nh'' @ [10] @ asc ''  '' @ [8226] @ asc '' Ctrl+C       = H'' @ [7911]
    @ asc ''y l'' @ [7879] @ asc ''nh '' @ [273] @ asc ''ang nh'' @ [7853] @ asc ''p''
    @ [10, 10, 55357, 56523] @ asc '' L'' @ [7878] @ asc ''NH H'' @ [7878] @ asc '' TH''
    @ [7888] @ asc ''NG:'' @ [10] @ replicate 60 9472 @ [10] @ asc ''  help          - Hi''
    @ [7875] @ asc ''n th'' @ [7883] @ asc '' h'' @ [432, 7899] @ asc ''ng d'' @ [7851]
    @ asc ''n n'' @ [224] @ asc ''y'' @ [10] @ asc ''  clear         - X'' @ [243]
    @ asc ''a m'' @ [224] @ asc ''n h'' @ [236] @ asc ''nh terminal'' @ [10]
    @ asc ''  reset         - Kh'' @ [244] @ asc ''i ph'' @ [7909] @ asc ''c database v''
    @ [7873] @ asc '' ban '' @ [273, 7847] @ asc ''u'' @ [10]
    @ asc ''  tables        - Xem danh s'' @ [225] @ asc ''ch c'' @ [225] @ asc ''c b''
    @ [7843] @ asc ''ng'' @ [10] @ asc ''  desc <table>  - Xem c'' @ [7845] @ asc ''u tr''
    @ [250] @ asc ''c b'' @ [7843] @ asc ''ng'' @ [10] @ asc ''  ai on/off     - B''
    @ [7853] @ asc ''t/t'' @ [7855] @ asc ''t AI h'' @ [7895] @ asc '' tr'' @ [7907, 10]
    @ asc ''  learn on/off  - B'' @ [7853] @ asc ''t/t'' @ [7855] @ asc ''t ch'' @ [7871]
    @ asc '' '' @ [273, 7897] @ asc '' h'' @ [7885] @ asc ''c t'' @ [7853] @ asc ''p''
    @ [10, 10, 55357, 56803, 65039] @ asc ''  G'' @ [213] @ asc '' TI'' @ [7870]
    @ asc ''NG VI'' @ [7878] @ asc ''T (AI t'' @ [7921] @ asc '' chuy'' @ [7875]
    @ asc ''n sang SQL):'' @ [10] @ replicate 60 9472 @ [10] @ asc ''  '' @ [34] @ asc ''l''
    @ [7845] @ asc ''y t'' @ [7845] @ asc ''t c'' @ [7843] @ asc '' t'' @ [7915]
    @ asc '' students'' @ [34, 10] @ asc ''  '' @ [34, 273, 7871] @ asc ''m s'' @ [7889]
    @ asc '' l'' @ [432, 7907] @ asc ''ng trong products'' @ [34] @ asc ''  '' @ [10]
    @ asc ''  '' @ [34] @ asc ''s'' @ [7855] @ asc ''p x'' @ [7871]
    @ asc ''p employees theo salary gi'' @ [7843] @ asc ''m d'' @ [7847] @ asc ''n''
    @ [34, 10, 10, 55357, 56541] @ asc '' V'' @ [205] @ asc '' D'' @ [7908]
    @ asc '' SQL NHI'' @ [7872] @ asc ''U D'' @ [210] @ asc ''NG:'' @ [10]
    @ replicate 60 9472 @ [10] @ asc ''  mysql> CREATE TABLE users ('' @ [10]
    @ asc ''      ->   id INT PRIMARY KEY,'' @ [10] @ asc ''      ->   name VARCHAR(100)''
    @ [10] @ asc ''      -> );'' @ [10] @ asc ''      ''"

text \<open>The confirmation of \<open>reset\<close>.\<close>

definition resetText :: jsstring where
  "resetText =
    [9989] @ asc '' Database '' @ [273, 227] @ asc '' '' @ [273, 432, 7907] @ asc ''c kh''
    @ [244] @ asc ''i ph'' @ [7909] @ asc ''c v'' @ [7873] @ asc '' tr'' @ [7841]
    @ asc ''ng th'' @ [225] @ asc ''i ban '' @ [273, 7847] @ asc ''u!''"

text \<open>The list of the sample tables printed by \<open>tables\<close>.\<close>

definition tablesText :: jsstring where
  "tablesText =
    [10, 55357, 56522] @ asc '' DANH S'' @ [193] @ asc ''CH B'' @ [7842] @ asc ''NG:''
    @ [10] @ replicate 40 9472 @ [10] @ asc ''  '' @ [8226]
    @ asc '' students   (id, name, age, grade, class)'' @ [10] @ asc ''  '' @ [8226]
    @ asc '' products   (id, name, price, category, stock)'' @ [10] @ asc ''  '' @ [8226]
    @ asc '' orders     (id, customer_name, product_id, quantity, order_'' @ asc ''date)''
    @ [10] @ asc ''  '' @ [8226]
    @ asc '' employees  (id, name, department, salary, hire_date)'' @ [10] @ asc ''      ''"

text \<open>The replies to \<open>ai on\<close>, \<open>ai off\<close>, \<open>learn on\<close> and \<open>learn off\<close>.\<close>

definition aiOnText :: jsstring where
  "aiOnText =
    [55358, 56598] @ asc '' AI h'' @ [7895] @ asc '' tr'' @ [7907] @ asc '' '' @ [273, 227]
    @ asc '' '' @ [273, 432, 7907] @ asc ''c B'' @ [7852] @ asc ''T''"

definition aiOffText :: jsstring where
  "aiOffText =
    [55358, 56598] @ asc '' AI h'' @ [7895] @ asc '' tr'' @ [7907] @ asc '' '' @ [273, 227]
    @ asc '' '' @ [273, 432, 7907] @ asc ''c T'' @ [7854] @ asc ''T''"

definition learnOnText :: jsstring where
  "learnOnText =
    [55357, 56538] @ asc '' Ch'' @ [7871] @ asc '' '' @ [273, 7897] @ asc '' h'' @ [7885]
    @ asc ''c t'' @ [7853] @ asc ''p '' @ [273, 227] @ asc '' '' @ [273, 432, 7907]
    @ asc ''c B'' @ [7852] @ asc ''T - S'' @ [7869] @ asc '' hi'' @ [7875] @ asc ''n th''
    @ [7883] @ asc '' g'' @ [7907] @ asc ''i '' @ [253] @ asc '' t'' @ [7889] @ asc ''i ''
    @ [432] @ asc ''u''"

definition learnOffText :: jsstring where
  "learnOffText =
    [55357, 56538] @ asc '' Ch'' @ [7871] @ asc '' '' @ [273, 7897] @ asc '' h'' @ [7885]
    @ asc ''c t'' @ [7853] @ asc ''p '' @ [273, 227] @ asc '' '' @ [273, 432, 7907]
    @ asc ''c T'' @ [7854] @ asc ''T''"

text \<open>The reply to \<open>no\<close>, and the request for a confirmation.\<close>

definition cancelText :: jsstring where
  "cancelText =
    [10060] @ asc '' '' @ [272, 227] @ asc '' h'' @ [7911] @ asc ''y l'' @ [7879]
    @ asc ''nh.''"

definition confirmText :: jsstring where
  "confirmText =
    [9889] @ asc '' G'' @ [245] @ asc '' '' @ [34] @ asc ''yes'' @ [34] @ asc '' ''
    @ [273, 7875] @ asc '' x'' @ [225] @ asc ''c nh'' @ [7853] @ asc ''n th'' @ [7921]
    @ asc ''c thi ho'' @ [7863] @ asc ''c '' @ [34] @ asc ''no'' @ [34] @ asc '' ''
    @ [273, 7875] @ asc '' h'' @ [7911] @ asc ''y''"

text \<open>The two replies of \<open>desc\<close>, the notes of the pipeline and the summaries of \<open>runSQL\<close>.\<close>

definition describeText :: "jsstring \<Rightarrow> jsstring list \<Rightarrow> jsstring" where
  "describeText tableName cols =
     [10, 55357, 56523] @ asc '' C'' @ [7845] @ asc ''u tr'' @ [250] @ asc ''c b'' @ [7843]
     @ asc ''ng: '' @ tableName @ [10] @ replicate 40 9472 @ [10]
     @ join [10] (map (\<lambda>col. asc ''  '' @ col) cols) @ [10] @ asc ''        ''"

definition unknownTableText :: "jsstring \<Rightarrow> jsstring" where
  "unknownTableText tableName =
     [10060] @ asc '' B'' @ [7843] @ asc ''ng '' @ [34] @ tableName @ [34] @ asc '' kh''
     @ [244] @ asc ''ng t'' @ [7891] @ asc ''n t'' @ [7841] @ asc ''i!''"

definition convertedText :: "jsstring \<Rightarrow> jsstring" where
  "convertedText convertedSQL =
     [55357, 56580] @ asc '' Chuy'' @ [7875] @ asc ''n '' @ [273, 7893] @ asc ''i ti''
     @ [7871] @ asc ''ng Vi'' @ [7879] @ asc ''t '' @ [8594] @ asc '' SQL:'' @ [10]
     @ asc ''   '' @ convertedSQL"

definition correctedText :: "jsstring list \<Rightarrow> jsstring \<Rightarrow> jsstring" where
  "correctedText cs fixedSQL =
     [9999, 65039] @ asc '' S'' @ [7917] @ asc ''a l'' @ [7895] @ asc ''i:'' @ [10]
     @ join [10] (map (\<lambda>c. asc ''   '' @ [8226, 32] @ c) cs)
     @ [10] @ asc ''   '' @ [8594, 32] @ fixedSQL"

definition errorText :: "jsstring \<Rightarrow> jsstring" where
  "errorText e = asc ''ERROR: '' @ e"

definition explanationText :: "jsstring \<Rightarrow> jsstring" where
  "explanationText explanation =
     [55357, 56541] @ asc '' Gi'' @ [7843] @ asc ''i th'' @ [237] @ asc ''ch:'' @ [10]
     @ explanation"

definition rowsInSetText :: "nat \<Rightarrow> jsstring \<Rightarrow> jsstring" where
  "rowsInSetText n ms = natText n @ asc '' row(s) in set ('' @ ms @ asc ''ms)''"

definition queryOkText :: "nat \<Rightarrow> jsstring \<Rightarrow> jsstring" where
  "queryOkText n ms = asc ''Query OK, '' @ natText n @ asc '' row(s) affected ('' @ ms @ asc ''ms)''"

definition tipsText :: "jsstring list \<Rightarrow> jsstring" where
  "tipsText tips =
     [55357, 56538] @ asc '' G'' @ [7907] @ asc ''i '' @ [253] @ asc '' t'' @ [7889]
     @ asc ''i '' @ [432] @ asc ''u:'' @ [10] @ join [10] tips"

subsection \<open>Running a statement\<close>

text \<open>
  \<open>runSQL\<close> calls the engine once and then adds entries to the transcript, one after the
  other. \<open>runEntries\<close> lists them in the order of the calls of \<open>addEntry\<close>: after an error,
  the error and a hint (with the AI assistance on, if there is one); otherwise an
  explanation (with the AI assistance on, if it is not empty), then the table or the
  count of affected rows, then the tips (in learning mode, with the AI assistance on, if
  there are any). An error that is the empty string counts as no error
  (\<open>if (result.error)\<close>), and \<open>result.affectedRows || 0\<close> is 0 for a missing count.
\<close>

type_synonym 'n entry_spec = "entry_type \<times> jsstring \<times> 'n table option"

fun addEntries :: "'n entry_spec list \<Rightarrow> ('db, 'n) state \<Rightarrow> ('db, 'n) state" where
  "addEntries [] st = st"
| "addEntries ((t, c, tbl) # es) st = addEntries es (addEntry t c tbl st)"

definition runEntries ::
  "('db, 'n) env \<Rightarrow> jsstring \<Rightarrow> bool \<Rightarrow> bool \<Rightarrow> 'n result \<Rightarrow> 'n entry_spec list" where
  "runEntries E sql ai learn result =
     (case error result of
        Some (e # es) \<Rightarrow>
          (TError, errorText (e # es), None) #
          (if ai
           then (case getErrorHelp E (e # es) of
                   Some (h # hs) \<Rightarrow> [(TAi, h # hs, None)]
                 | _ \<Rightarrow> [])
           else [])
      | _ \<Rightarrow>
          (if ai \<and> explainSQL E sql \<noteq> []
           then [(TAi, explanationText (explainSQL E sql), None)] else [])
          @ [if columns result \<noteq> [] \<and> rows result \<noteq> []
             then (TResult,
                   rowsInSetText (length (rows result)) (numberText E (executionTime result)),
                   Some \<lparr>columns = columns result, rows = rows result\<rparr>)
             else (TInfo,
                   queryOkText (case affectedRows result of None \<Rightarrow> 0 | Some n \<Rightarrow> n)
                     (numberText E (executionTime result)),
                   None)]
          @ (if learn \<and> ai \<and> getOptimizationTips E sql \<noteq> []
             then [(TAi, tipsText (getOptimizationTips E sql), None)] else []))"

definition runSQL :: "('db, 'n) env \<Rightarrow> jsstring \<Rightarrow> ('db, 'n) state \<Rightarrow> ('db, 'n) state" where
  "runSQL E sql st =
     (let (result, d) = executeSQL E (database st) sql in
      addEntries (runEntries E sql (aiEnabled st) (learningMode st) result)
        (st\<lparr>database := d, executed := executed st @ [sql]\<rparr>))"

subsection \<open>The dispatcher\<close>

text \<open>
  \<open>text.split(/\s+/)\<close>: the pieces of a text between its runs of white space.
\<close>

function splitWhiteSpace :: "jsstring \<Rightarrow> jsstring list" where
  "splitWhiteSpace s =
     (let w = takeWhile (\<lambda>c. \<not> isWhiteSpace c) s;
          r = dropWhile (\<lambda>c. \<not> isWhiteSpace c) s
      in if r = [] then [w] else w # splitWhiteSpace (dropWhile isWhiteSpace r))"
  by pat_completeness auto
termination
proof (relation "measure length")
  fix s w r
  assume r: "r = dropWhile (\<lambda>c. \<not> isWhiteSpace c) s" and ne: "r \<noteq> []"
  have "isWhiteSpace (hd r)"
    using r ne hd_dropWhile [of "\<lambda>c. \<not> isWhiteSpace c" s] by auto
  then have "length (dropWhile isWhiteSpace r) < length r"
    using ne by (cases r) (auto intro: le_imp_less_Suc length_dropWhile_le)
  also have "length r \<le> length s"
    using r by (simp add: length_dropWhile_le)
  finally show "(dropWhile isWhiteSpace r, s) \<in> measure length" by simp
qed simp

definition nth_opt :: "'a list \<Rightarrow> nat \<Rightarrow> 'a option" where
  "nth_opt xs i = (if i < length xs then Some (xs ! i) else None)"

text \<open>
  The schema table of \<open>desc\<close> is an object literal, so a look-up also finds what the
  object inherits from \<open>Object.prototype\<close>: such a value is not an array, and
  \<open>tableInfo[...].map\<close> throws a \<open>TypeError\<close> on it.
\<close>

definition tableInfo :: "(jsstring \<times> jsstring list) list" where
  "tableInfo =
     [(asc ''students'',
       [asc ''id INT PRIMARY KEY'', asc ''name VARCHAR(100)'', asc ''age INT'',
        asc ''grade VARCHAR(10)'', asc ''class VARCHAR(20)'']),
      (asc ''products'',
       [asc ''id INT PRIMARY KEY'', asc ''name VARCHAR(100)'', asc ''price INT'',
        asc ''category VARCHAR(50)'', asc ''stock INT'']),
      (asc ''orders'',
       [asc ''id INT PRIMARY KEY'', asc ''customer_name VARCHAR(100)'', asc ''product_id INT'',
        asc ''quantity INT'', asc ''order_date DATE'']),
      (asc ''employees'',
       [asc ''id INT PRIMARY KEY'', asc ''name VARCHAR(100)'', asc ''department VARCHAR(50)'',
        asc ''salary INT'', asc ''hire_date DATE''])]"

definition objectPrototypeKeys :: "jsstring list" where
  "objectPrototypeKeys =
     [asc ''constructor'', asc ''__defineGetter__'', asc ''__defineSetter__'',
      asc ''hasOwnProperty'', asc ''__lookupGetter__'', asc ''__lookupSetter__'',
      asc ''isPrototypeOf'', asc ''propertyIsEnumerable'', asc ''toString'', asc ''valueOf'',
      asc ''__proto__'', asc ''toLocaleString'']"

text \<open>
  The branch of \<open>executeCommand\<close> for \<open>desc\<close> and \<open>describe\<close>. The table name is
  \<open>trimmedSQL.split(/\s+/)[1]?.replace(';', '')\<close>; a missing second piece prints as
  \<open>undefined\<close>.
\<close>

definition describeTable :: "jsstring \<Rightarrow> ('db, 'n) state \<Rightarrow> ('db, 'n) state outcome" where
  "describeTable trimmedSQL st =
     (case map_option (replaceString (asc '';'') []) (nth_opt (splitWhiteSpace trimmedSQL) 1) of
        None \<Rightarrow> Done (addEntry TError (unknownTableText (asc ''undefined'')) None st)
      | Some tableName \<Rightarrow>
          if tableName = [] then Done (addEntry TError (unknownTableText tableName) None st)
          else
            (case map_of tableInfo (toLowerCase tableName) of
               Some cols \<Rightarrow> Done (addEntry TInfo (describeText tableName cols) None st)
             | None \<Rightarrow>
                 if toLowerCase tableName \<in> set objectPrototypeKeys then Threw st
                 else Done (addEntry TError (unknownTableText tableName) None st)))"

text \<open>
  The last part of \<open>executeCommand\<close>, from the comment \<open>Process SQL command\<close> on: with the
  AI assistance on, the statement is translated, corrected and checked against the
  danger rules; a rule of level \<open>high\<close> holds the statement back for a confirmation.
\<close>

definition processSQL :: "('db, 'n) env \<Rightarrow> jsstring \<Rightarrow> ('db, 'n) state \<Rightarrow> ('db, 'n) state" where
  "processSQL E trimmedSQL st =
     (if aiEnabled st then
        (let (sql1, st1) =
               (case convertVietnameseToSQL trimmedSQL of
                  Some convertedSQL \<Rightarrow>
                    (convertedSQL, addEntry TAi (convertedText convertedSQL) None st)
                | None \<Rightarrow> (trimmedSQL, st));
             tf = fixSQLTypos sql1;
             (sql2, st2) =
               (if corrections tf \<noteq> []
                then (fixed tf, addEntry TAi (correctedText (corrections tf) (fixed tf)) None st1)
                else (sql1, st1))
         in case checkDangerousCommand sql2 of
              Some dangerous \<Rightarrow>
                (let st3 = addEntry TWarning (warning dangerous) None st2 in
                 if level dangerous = High
                 then addEntry TWarning confirmText None
                        (st3\<lparr>pendingDangerousCommand := Some sql2\<rparr>)
                 else runSQL E sql2 st3)
            | None \<Rightarrow> runSQL E sql2 st2)
      else runSQL E trimmedSQL st)"

text \<open>
  \<open>executeCommand\<close>. The recall list is updated first (\<open>addToCommandHistory\<close>, the lines
  under the comment \<open>Add to command history\<close>), for whatever was submitted. A held
  statement counts as pending when it is not the empty string
  (\<open>if (pendingDangerousCommand)\<close>).
\<close>

definition addToCommandHistory :: "jsstring \<Rightarrow> ('db, 'n) state \<Rightarrow> ('db, 'n) state" where
  "addToCommandHistory fullSQL st =
     st\<lparr>commandHistory := take 50 (fullSQL # filter (\<lambda>c. c \<noteq> fullSQL) (commandHistory st)),
        historyIndex := - 1,
        submitted := submitted st @ [fullSQL]\<rparr>"

definition executeCommand ::
  "('db, 'n) env \<Rightarrow> jsstring \<Rightarrow> ('db, 'n) state \<Rightarrow> ('db, 'n) state outcome" where
  "executeCommand E fullSQL st0 =
     (let st = addToCommandHistory fullSQL st0;
          trimmedSQL = trim fullSQL;
          lowerSQL = toLowerCase trimmedSQL
      in if lowerSQL = asc ''help'' then Done (addEntry TInfo helpText None st)
         else if lowerSQL = asc ''clear'' then Done (st\<lparr>history := []\<rparr>)
         else if lowerSQL = asc ''reset''
           then Done (addEntry TInfo resetText None (st\<lparr>database := resetDB E (database st)\<rparr>))
         else if lowerSQL = asc ''tables'' then Done (addEntry TInfo tablesText None st)
         else if startsWith lowerSQL (asc ''desc '') \<or> startsWith lowerSQL (asc ''describe '')
           then describeTable trimmedSQL st
         else if lowerSQL = asc ''ai on''
           then Done (addEntry TInfo aiOnText None (st\<lparr>aiEnabled := True\<rparr>))
         else if lowerSQL = asc ''ai off''
           then Done (addEntry TInfo aiOffText None (st\<lparr>aiEnabled := False\<rparr>))
         else if lowerSQL = asc ''learn on''
           then Done (addEntry TInfo learnOnText None (st\<lparr>learningMode := True\<rparr>))
         else if lowerSQL = asc ''learn off''
           then Done (addEntry TInfo learnOffText None (st\<lparr>learningMode := False\<rparr>))
         else
           (case pendingDangerousCommand st of
              Some (c # cs) \<Rightarrow>
                if lowerSQL = asc ''yes'' \<or> lowerSQL = asc ''y''
                then Done (runSQL E (c # cs) (st\<lparr>pendingDangerousCommand := None\<rparr>))
                else if lowerSQL = asc ''no'' \<or> lowerSQL = asc ''n''
                then Done (addEntry TInfo cancelText None (st\<lparr>pendingDangerousCommand := None\<rparr>))
                else Done (processSQL E trimmedSQL st)
            | _ \<Rightarrow> Done (processSQL E trimmedSQL st)))"

subsection \<open>The keyboard\<close>

datatype keyname = KeyL | KeyC | KeyEnter | KeyArrowUp | KeyArrowDown | KeyOther

record keyevent =
  key :: keyname
  ctrlKey :: bool
  shiftKey :: bool

text \<open>
  The lines of a statement are shown again in the transcript, the first as \<open>input\<close> and
  the others as \<open>continuation\<close>; an empty line is shown only when it is the first.
\<close>

fun echoLines :: "nat \<Rightarrow> jsstring list \<Rightarrow> ('db, 'n) state \<Rightarrow> ('db, 'n) state" where
  "echoLines idx [] st = st"
| "echoLines idx (line # ls) st =
     echoLines (Suc idx) ls
       (if line \<noteq> [] \<or> idx = 0
        then addEntry (if idx = 0 then TInput else TContinuation) line None st else st)"

definition finishSubmit :: "('db, 'n) state outcome \<Rightarrow> ('db, 'n) state outcome" where
  "finishSubmit r =
     (case r of
        Done st \<Rightarrow> Done (st\<lparr>buffer := [], currentLine := [], isMultiLine := False\<rparr>)
      | Threw st \<Rightarrow> Threw st)"

text \<open>
  \<open>commandHistory[newIndex]\<close>. The index is within the list whenever the handlers read
  it (lemma \<open>historyIndex_in_range\<close> below); outside it JavaScript gives \<open>undefined\<close>, for
  which the empty line stands.
\<close>

definition recall :: "jsstring list \<Rightarrow> int \<Rightarrow> jsstring" where
  "recall h i = (if 0 \<le> i \<and> i < int (length h) then h ! nat i else [])"

definition handleKeyDown ::
  "('db, 'n) env \<Rightarrow> keyevent \<Rightarrow> ('db, 'n) state \<Rightarrow> ('db, 'n) state outcome" where
  "handleKeyDown E e st =
     (if key e = KeyL \<and> ctrlKey e then Done (st\<lparr>history := []\<rparr>)
      else if key e = KeyC \<and> ctrlKey e then
        Done ((if buffer st \<noteq> [] \<or> currentLine st \<noteq> []
               then addEntry TInfo (asc ''^C'') None
                      (echoLines 0 (filter (\<lambda>l. l \<noteq> []) (buffer st @ [currentLine st])) st)
               else st)
              \<lparr>buffer := [], currentLine := [], isMultiLine := False\<rparr>)
      else if key e = KeyEnter \<and> ctrlKey e then
        (let fullCommand = trim (join [10] (buffer st @ [currentLine st])) in
         if fullCommand \<noteq> []
         then finishSubmit
                (executeCommand E fullCommand (echoLines 0 (buffer st @ [currentLine st]) st))
         else Done st)
      else if key e = KeyArrowUp \<and> buffer st = [] \<and> currentLine st = [] then
        (if historyIndex st < int (length (commandHistory st)) - 1
         then Done (st\<lparr>historyIndex := historyIndex st + 1,
                       currentLine := recall (commandHistory st) (historyIndex st + 1)\<rparr>)
         else Done st)
      else if key e = KeyArrowDown \<and> buffer st = [] then
        (if historyIndex st > 0
         then Done (st\<lparr>historyIndex := historyIndex st - 1,
                       currentLine := recall (commandHistory st) (historyIndex st - 1)\<rparr>)
         else if historyIndex st = 0
         then Done (st\<lparr>historyIndex := - 1, currentLine := []\<rparr>)
         else Done st)
      else if key e = KeyEnter \<and> \<not> shiftKey e \<and> \<not> ctrlKey e then
        (let fullCommand = join [10] (buffer st @ [currentLine st]) in
         if isCommandComplete fullCommand
         then finishSubmit
                (executeCommand E (trim fullCommand)
                   (echoLines 0 (buffer st @ [currentLine st]) st))
         else Done (st\<lparr>buffer := buffer st @ [currentLine st], currentLine := [],
                       isMultiLine := True\<rparr>))
      else Done st)"

text \<open>
  What the user can do: press a key in the input line, edit the line (\<open>onChange\<close>), use
  the two toggles of the header, or load one of the three quick examples.
\<close>

definition examples :: "jsstring list" where
  "examples =
     [asc ''SELECT * FROM students;'',
      asc ''l'' @ [7845] @ asc ''y t'' @ [7845] @ asc ''t c'' @ [7843] @ asc '' t'' @ [7915] @ asc '' products'',
      asc ''SELECT name, age'' @ [10] @ asc ''FROM students'' @ [10] @ asc ''WHERE age > 20;'']"

datatype action =
    KeyDown keyevent
  | Change jsstring
  | ToggleAi
  | ToggleLearning
  | QuickExample nat

fun step :: "('db, 'n) env \<Rightarrow> ('db, 'n) state \<Rightarrow> action \<Rightarrow> ('db, 'n) state" where
  "step E st (KeyDown e) = stateOf (handleKeyDown E e st)"
| "step E st (Change v) = st\<lparr>currentLine := v\<rparr>"
| "step E st ToggleAi = st\<lparr>aiEnabled := \<not> aiEnabled st\<rparr>"
| "step E st ToggleLearning = st\<lparr>learningMode := \<not> learningMode st\<rparr>"
| "step E st (QuickExample i) =
     (case nth_opt examples i of
        None \<Rightarrow> st
      | Some example \<Rightarrow>
          if 10 \<in> set example then st\<lparr>buffer := [], currentLine := example\<rparr>
          else st\<lparr>currentLine := example\<rparr>)"

definition run :: "('db, 'n) env \<Rightarrow> action list \<Rightarrow> ('db, 'n) state \<Rightarrow> ('db, 'n) state" where
  "run E acts st = foldl (step E) st acts"

text \<open>The plain keys used below.\<close>

definition enter :: action where
  "enter = KeyDown \<lparr>key = KeyEnter, ctrlKey = False, shiftKey = False\<rparr>"

definition arrowUp :: action where
  "arrowUp = KeyDown \<lparr>key = KeyArrowUp, ctrlKey = False, shiftKey = False\<rparr>"

definition arrowDown :: action where
  "arrowDown = KeyDown \<lparr>key = KeyArrowDown, ctrlKey = False, shiftKey = False\<rparr>"

section \<open>The table renderer\<close>

text \<open>\<open>String(cell ?? 'NULL')\<close>: a missing cell and \<open>null\<close> both print as \<open>NULL\<close>.\<close>

definition cellString :: "('n \<Rightarrow> jsstring) \<Rightarrow> 'n cell option \<Rightarrow> jsstring" where
  "cellString num c =
     (case c of
        Some (CStr s) \<Rightarrow> s
      | Some (CNum n) \<Rightarrow> num n
      | Some CNull \<Rightarrow> asc ''NULL''
      | None \<Rightarrow> asc ''NULL'')"

text \<open>\<open>Math.max(...xs)\<close>; \<open>None\<close> is the \<open>-Infinity\<close> of an empty list.\<close>

fun mathMax :: "nat list \<Rightarrow> nat option" where
  "mathMax [] = None"
| "mathMax (x # xs) = (case mathMax xs of None \<Rightarrow> Some x | Some y \<Rightarrow> Some (max x y))"

definition colWidths :: "('n \<Rightarrow> jsstring) \<Rightarrow> 'n table \<Rightarrow> nat list" where
  "colWidths num t =
     map (\<lambda>(i, col).
            case mathMax (map (\<lambda>row. length (cellString num (nth_opt row i))) (rows t)) of
              None \<Rightarrow> max (length col) 4
            | Some maxDataWidth \<Rightarrow> max (length col) (max maxDataWidth 4))
         (enumerate 0 (columns t))"

text \<open>\<open>padEnd(colWidths[i])\<close>; a width that is not there (\<open>undefined\<close>) pads nothing.\<close>

definition widthAt :: "nat list \<Rightarrow> nat \<Rightarrow> nat" where
  "widthAt ws i = (case nth_opt ws i of None \<Rightarrow> 0 | Some w \<Rightarrow> w)"

text \<open>
  The marker under a table that has more than 25 rows,
  \<^verbatim>\<open>... v\u00E0 N h\u00E0ng n\u1EEFa\<close> (``... and N more rows'').
\<close>

definition moreRowsText :: "nat \<Rightarrow> jsstring" where
  "moreRowsText n =
     asc ''... v'' @ [224] @ asc '' '' @ natText n @ asc '' h'' @ [224] @ asc ''ng n'' @ [7919]
     @ asc ''a''"

text \<open>
  \<open>renderTable\<close> returns the lines of the grid: the separator (shown above the header,
  under it and under the rows), the header, one line for each of the first 25 rows, and
  the marker.
\<close>

record rendered =
  separator :: jsstring
  header :: jsstring
  body :: "jsstring list"
  moreRows :: "jsstring option"

definition renderRow :: "('n \<Rightarrow> jsstring) \<Rightarrow> nat list \<Rightarrow> 'n cell list \<Rightarrow> jsstring" where
  "renderRow num ws row =
     asc ''|''
     @ join (asc ''|'')
         (map (\<lambda>(i, cell). [32] @ padEnd (cellString num (Some cell)) (widthAt ws i) @ [32])
            (enumerate 0 row))
     @ asc ''|''"

definition renderTable :: "('n \<Rightarrow> jsstring) \<Rightarrow> 'n table \<Rightarrow> rendered" where
  "renderTable num t =
     (let ws = colWidths num t in
      \<lparr>separator =
         asc ''+'' @ join (asc ''+'') (map (\<lambda>w. replicate (w + 2) 45) ws) @ asc ''+'',
       header =
         asc ''|''
         @ join (asc ''|'')
             (map (\<lambda>(i, col). [32] @ padEnd col (widthAt ws i) @ [32]) (enumerate 0 (columns t)))
         @ asc ''|'',
       body = map (renderRow num ws) (take 25 (rows t)),
       moreRows =
         (if length (rows t) > 25 then Some (moreRowsText (length (rows t) - 25)) else None)\<rparr>)"

text \<open>
  The transcript shows a grid only for an entry of type \<open>result\<close> that carries a table
  (\<open>entry.table && renderTable(entry.table)\<close>).
\<close>

definition entryGrid :: "('n \<Rightarrow> jsstring) \<Rightarrow> 'n CommandEntry \<Rightarrow> rendered option" where
  "entryGrid num e =
     (if entry_type e = TResult then map_option (renderTable num) (entry_table e) else None)"

section \<open>An example environment\<close>

text \<open>
  The theorems below hold for every environment. To run them on concrete inputs, here
  is a small one: the store lists the names of its tables, \<open>DROP TABLE students;\<close>
  removes the table, a select from it returns two rows (or none, with the filter
  \<open>id > 9\<close>) while the table exists and an error afterwards, and every other statement
  succeeds with nothing to show. It writes no advice.
\<close>

definition demoResult :: "jsstring list \<Rightarrow> nat cell list list \<Rightarrow> nat result" where
  "demoResult cols rs =
     \<lparr>columns = cols, rows = rs, error = None, affectedRows = None, executionTime = 1\<rparr>"

definition demoExecute :: "jsstring list \<Rightarrow> jsstring \<Rightarrow> nat result \<times> jsstring list" where
  "demoExecute d sql =
     (if sql = asc ''DROP TABLE students;''
      then (demoResult [] [], removeAll (asc ''students'') d)
      else if sql = asc ''SELECT * FROM students;'' \<or> sql = asc ''SELECT * FROM students WHERE id > 9;''
      then
        (if asc ''students'' \<in> set d
         then (demoResult [asc ''id'', asc ''name'']
                 (if sql = asc ''SELECT * FROM students;''
                  then [[CNum 1, CStr (asc ''Ann'')], [CNum 2, CNull]] else []), d)
         else ((demoResult [] [])\<lparr>error := Some (asc ''no such table: students'')\<rparr>, d))
      else (demoResult [] [], d))"

definition demoEnv :: "(jsstring list, nat) env" where
  "demoEnv =
     \<lparr>executeSQL = demoExecute, resetDB = (\<lambda>d. [asc ''students'']), numberText = natText,
      explainSQL = (\<lambda>sql. []), getOptimizationTips = (\<lambda>sql. []),
      getErrorHelp = (\<lambda>e. None)\<rparr>"

definition demoInit :: "(jsstring list, nat) state" where
  "demoInit = init [asc ''students'']"

section \<open>Notions used in the statements\<close>

text \<open>
  The words the dispatcher handles itself, the four answers to a request for
  confirmation, and the test for a \<open>desc\<close>/\<open>describe\<close> line.
\<close>

definition builtinWords :: "jsstring list" where
  "builtinWords =
     [asc ''help'', asc ''clear'', asc ''reset'', asc ''tables'', asc ''ai on'', asc ''ai off'',
      asc ''learn on'', asc ''learn off'']"

definition answerWords :: "jsstring list" where
  "answerWords = [asc ''yes'', asc ''y'', asc ''no'', asc ''n'']"

definition isDescribe :: "jsstring \<Rightarrow> bool" where
  "isDescribe s \<longleftrightarrow>
     startsWith (toLowerCase (trim s)) (asc ''desc '')
     \<or> startsWith (toLowerCase (trim s)) (asc ''describe '')"

text \<open>
  The invariant of the recall list: it is the list of the submitted statements, the
  latest first, each kept once (at its latest submission) and cut at 50; and the recall
  index points into it or is -1.
\<close>

definition recallInv :: "('db, 'n) state \<Rightarrow> bool" where
  "recallInv st \<longleftrightarrow>
     take 50 (rev (remdups (submitted st))) = commandHistory st
     \<and> - 1 \<le> historyIndex st \<and> historyIndex st < int (length (commandHistory st))"

text \<open>
  What the pipeline makes of a statement when the AI assistance is on: the text it hands
  on (translated and corrected) and the notes it adds to the transcript on the way.
\<close>

definition pipelineSQL :: "jsstring \<Rightarrow> jsstring" where
  "pipelineSQL s =
     (let sql1 = (case convertVietnameseToSQL s of Some c \<Rightarrow> c | None \<Rightarrow> s) in
      if corrections (fixSQLTypos sql1) \<noteq> [] then fixed (fixSQLTypos sql1) else sql1)"

definition pipelineNotes :: "jsstring \<Rightarrow> 'n entry_spec list" where
  "pipelineNotes s =
     (let sql1 = (case convertVietnameseToSQL s of Some c \<Rightarrow> c | None \<Rightarrow> s) in
      (case convertVietnameseToSQL s of Some c \<Rightarrow> [(TAi, convertedText c, None)] | None \<Rightarrow> [])
      @ (if corrections (fixSQLTypos sql1) \<noteq> []
         then [(TAi, correctedText (corrections (fixSQLTypos sql1)) (fixed (fixSQLTypos sql1)), None)]
         else []))"

text \<open>
  For comparing a dispatch with a statement pending against the same dispatch with
  nothing pending: \<open>stillPending cmd\<close> puts the held statement \<open>cmd\<close> back unless another
  one is held, and \<open>mapOutcome\<close> applies a function to the state of an outcome.
\<close>

definition stillPending :: "jsstring \<Rightarrow> ('db, 'n) state \<Rightarrow> ('db, 'n) state" where
  "stillPending cmd st =
     st\<lparr>pendingDangerousCommand :=
          (case pendingDangerousCommand st of None \<Rightarrow> Some cmd | Some c \<Rightarrow> Some c)\<rparr>"

fun mapOutcome :: "('a \<Rightarrow> 'b) \<Rightarrow> 'a outcome \<Rightarrow> 'b outcome" where
  "mapOutcome f (Done s) = Done (f s)"
| "mapOutcome f (Threw s) = Threw (f s)"

text \<open>The example session after \<open>DROP TABLE students;\<close> was submitted.\<close>

definition demoPending :: "(jsstring list, nat) state" where
  "demoPending = stateOf (executeCommand demoEnv (asc ''DROP TABLE students;'') demoInit)"

subsection \<open>The shapes of the correction patterns\<close>

text \<open>
  The patterns of \<open>sqlCorrections\<close> have three shapes: a word, a word that is not followed
  by a given letter, and two words with white space between them. For these shapes the
  matcher has a closed form, which the proofs about \<open>fixSQLTypos\<close> use: \<open>pre w t\<close> says that
  the text \<open>t\<close> begins with the word \<open>w\<close>, up to the case of the letters; \<open>mt J t\<close> is the
  text left behind a match of the shape \<open>J\<close> at the beginning of \<open>t\<close>, if there is one;
  \<open>occS J t\<close> says that \<open>J\<close> matches somewhere in \<open>t\<close>, and \<open>occB J n t\<close> that it matches
  at one of the first \<open>n\<close> positions; \<open>rewrite J f t\<close> replaces the matches of \<open>J\<close> in \<open>t\<close> by
  \<open>f\<close>, from left to right. A shape is well formed when its words are not empty and no white
  space is taken for the first letter of a second word. That these functions give what
  \<open>matchSeq\<close>, \<open>regexTest\<close> and \<open>regexReplaceAll\<close> give on the pattern \<open>rxOf J\<close> is proved
  below (\<open>matchSeq_shape\<close>, \<open>regexTest_shape\<close>, \<open>regexReplaceAll_shape\<close>).
\<close>

fun pre :: "jsstring \<Rightarrow> jsstring \<Rightarrow> bool" where
  "pre [] t = True"
| "pre (w # ws) [] = False"
| "pre (w # ws) (x # xs) = (canonicalize x = canonicalize w \<and> pre ws xs)"

datatype shape = Word jsstring | WordNotBefore jsstring nat | TwoWords jsstring jsstring

fun rxOf :: "shape \<Rightarrow> rx list" where
  "rxOf (Word w) = lit w"
| "rxOf (WordNotBefore w c) = lit w @ [NotAhead (lit [c])]"
| "rxOf (TwoWords w1 w2) = lit w1 @ [Plus Sp] @ lit w2"

fun mt :: "shape \<Rightarrow> jsstring \<Rightarrow> jsstring option" where
  "mt (Word w) t = (if pre w t then Some (drop (length w) t) else None)"
| "mt (WordNotBefore w c) t =
     (if pre w t \<and> \<not> pre [c] (drop (length w) t) then Some (drop (length w) t) else None)"
| "mt (TwoWords w1 w2) t =
     (if pre w1 t
      then (case drop (length w1) t of
              [] \<Rightarrow> None
            | x # xs \<Rightarrow>
                if isWhiteSpace x \<and> pre w2 (dropWhile isWhiteSpace xs)
                then Some (drop (length w2) (dropWhile isWhiteSpace xs)) else None)
      else None)"

fun wfShape :: "shape \<Rightarrow> bool" where
  "wfShape (Word w) = (w \<noteq> [])"
| "wfShape (WordNotBefore w c) = (w \<noteq> [])"
| "wfShape (TwoWords w1 w2) =
     (w1 \<noteq> [] \<and> w2 \<noteq> [] \<and> (\<forall>x. isWhiteSpace x \<longrightarrow> canonicalize x \<noteq> canonicalize (hd w2)))"

fun occS :: "shape \<Rightarrow> jsstring \<Rightarrow> bool" where
  "occS K [] = (mt K [] \<noteq> None)"
| "occS K (x # xs) = (mt K (x # xs) \<noteq> None \<or> occS K xs)"

fun occB :: "shape \<Rightarrow> nat \<Rightarrow> jsstring \<Rightarrow> bool" where
  "occB K 0 t = False"
| "occB K (Suc n) [] = (mt K [] \<noteq> None)"
| "occB K (Suc n) (x # xs) = (mt K (x # xs) \<noteq> None \<or> occB K n xs)"

function rewrite :: "shape \<Rightarrow> jsstring \<Rightarrow> jsstring \<Rightarrow> jsstring" where
  "rewrite J f [] = (case mt J [] of None \<Rightarrow> [] | Some r \<Rightarrow> f)"
| "rewrite J f (x # xs) =
     (case mt J (x # xs) of
        None \<Rightarrow> x # rewrite J f xs
      | Some r \<Rightarrow>
          if length r < length (x # xs) then f @ rewrite J f r else f @ x # rewrite J f xs)"
  by pat_completeness auto
termination
  by (relation "measure (\<lambda>(J, f, s). length s)") auto

text \<open>
  When can the replacement of a match of \<open>J\<close> by the text \<open>F\<close> bring about a match of \<open>K\<close>?
  Only where a match of \<open>K\<close> overlaps \<open>F\<close>. \<open>agree v F\<close> compares \<open>v\<close> and \<open>F\<close> as far as both
  reach, and \<open>nsuf\<close> lists the non-empty suffixes of a text. \<open>quiet K J F\<close> excludes a match
  of \<open>K\<close> that begins before \<open>F\<close> and reaches into it, \<open>hits K g\<close> says that \<open>K\<close> may match at
  the beginning of a text that begins with \<open>g\<close>, and \<open>silent K F\<close> excludes a match of \<open>K\<close>
  that begins inside \<open>F\<close>. Such a match is \<open>excused\<close> when the replaced word ends in the same
  letters, so that the match was there before the replacement (\<open>silentFor\<close>).
\<close>

fun agree :: "jsstring \<Rightarrow> jsstring \<Rightarrow> bool" where
  "agree [] t = True"
| "agree (v # vs) [] = True"
| "agree (v # vs) (f # fs) = (canonicalize f = canonicalize v \<and> agree vs fs)"

fun nsuf :: "'a list \<Rightarrow> 'a list list" where
  "nsuf [] = []"
| "nsuf (x # xs) = (x # xs) # nsuf xs"

fun firstWord :: "shape \<Rightarrow> jsstring" where
  "firstWord (Word w) = w"
| "firstWord (WordNotBefore w c) = w"
| "firstWord (TwoWords w1 w2) = w1"

fun quiet :: "shape \<Rightarrow> shape \<Rightarrow> jsstring \<Rightarrow> bool" where
  "quiet (Word w) J F = list_all (\<lambda>v. \<not> agree v F) (nsuf (tl w))"
| "quiet (WordNotBefore w c) J F =
     (list_all (\<lambda>v. \<not> agree v F) (nsuf (tl w))
      \<and> firstWord J \<noteq> [] \<and> canonicalize (hd (firstWord J)) \<noteq> canonicalize c)"
| "quiet (TwoWords w1 w2) J F =
     (list_all (\<lambda>v. \<not> agree v F) (nsuf (tl w1)) \<and> list_all (\<lambda>v. \<not> agree v F) (nsuf w2)
      \<and> F \<noteq> [] \<and> \<not> isWhiteSpace (hd F))"

fun hits :: "shape \<Rightarrow> jsstring \<Rightarrow> bool" where
  "hits (Word w) g = agree w g"
| "hits (WordNotBefore w c) g =
     (agree w g \<and> \<not> (length w < length g \<and> canonicalize (g ! length w) = canonicalize c))"
| "hits (TwoWords w1 w2) g = agree w1 g"

definition silent :: "shape \<Rightarrow> jsstring \<Rightarrow> bool" where
  "silent K F = list_all (\<lambda>g. \<not> hits K g) (nsuf F)"

fun excused :: "shape \<Rightarrow> shape \<Rightarrow> jsstring \<Rightarrow> bool" where
  "excused (Word w) (Word wj) g =
     (length g \<le> length wj
      \<and> map canonicalize g = map canonicalize (drop (length wj - length g) wj))"
| "excused K J g = False"

definition silentFor :: "shape \<Rightarrow> shape \<Rightarrow> jsstring \<Rightarrow> bool" where
  "silentFor K J F = list_all (\<lambda>g. \<not> hits K g \<or> excused K J g) (nsuf F)"

text \<open>
  The correction table by shapes. In a pass the rules are tried one after the other
  (\<open>stepS\<close>). \<open>safeChain D rules\<close> checks that each rule leaves alone the patterns \<open>D\<close> of the
  rules before it, and its own pattern if the rule is marked. In \<open>typoRules\<close> every rule
  but the one for \<open>INSET\<close> is marked: the last rule, \<open>JION\<close> to \<open>JOIN\<close>, can build \<open>INSET\<close>.
  In \<open>typoRulesBeforeLast\<close>, the table without its last rule, every rule is marked.
\<close>

type_synonym typoRule = "shape \<times> jsstring \<times> bool"

fun stepS :: "jsstring \<Rightarrow> typoRule \<Rightarrow> jsstring" where
  "stepS t (J, F, tr) = (if occS J t then rewrite J F t else t)"

fun safeChain :: "shape list \<Rightarrow> typoRule list \<Rightarrow> bool" where
  "safeChain D [] = True"
| "safeChain D ((J, F, tr) # rest) =
     (list_all (\<lambda>K. quiet K J F \<and> silentFor K J F) D
      \<and> (tr \<longrightarrow> quiet J J F \<and> silent J F)
      \<and> safeChain (if tr then D @ [J] else D) rest)"

definition tracked :: "typoRule list \<Rightarrow> shape list" where
  "tracked rules = map fst (filter (\<lambda>(J, F, tr). tr) rules)"

definition typoRules :: "typoRule list" where
  "typoRules =
     [(Word (asc ''SLECT''), asc ''SELECT'', True),
      (Word (asc ''FORM''), asc ''FROM'', True),
      (WordNotBefore (asc ''WHER'') 69, asc ''WHERE'', True),
      (TwoWords (asc ''ODER'') (asc ''BY''), asc ''ORDER BY'', True),
      (TwoWords (asc ''GRUOP'') (asc ''BY''), asc ''GROUP BY'', True),
      (Word (asc ''DELTE''), asc ''DELETE'', True),
      (Word (asc ''UDPATE''), asc ''UPDATE'', True),
      (Word (asc ''INSET''), asc ''INSERT'', False),
      (Word (asc ''VALEUS''), asc ''VALUES'', True),
      (Word (asc ''JION''), asc ''JOIN'', True)]"

definition typoRulesBeforeLast :: "typoRule list" where
  "typoRulesBeforeLast = map (\<lambda>(J, F, tr). (J, F, True)) (butlast typoRules)"

section \<open>Properties\<close>

text \<open>The definitions that evaluate a text function on a concrete input.\<close>

lemmas eval_simps = asc_def lit_def canonicalize_def upperCaseTable_def isWhiteSpace_def
  isWordChar_def isLineTerminator_def regexTest_def regexMatch_def regexReplaceAll_def trim_def
  toLowerCase_def lowerUnit_def startsWith_def endsWith_def

subsection \<open>Completeness of a statement\<close>

lemma complete_example:
  "endsWith (trim (asc ''SELECT * FROM students;'')) (asc '';'')"
  by (simp add: eval_simps)

lemma incomplete_example:
  "\<not> endsWith (trim (asc ''SELECT * FROM students'')) (asc '';'')
   \<and> toLowerCase (trim (asc ''SELECT * FROM students'')) \<notin> set specialCommands
   \<and> \<not> startsWith (toLowerCase (trim (asc ''SELECT * FROM students''))) (asc ''desc '')
   \<and> \<not> startsWith (toLowerCase (trim (asc ''SELECT * FROM students''))) (asc ''describe '')
   \<and> (\<forall>m \<in> set vietnameseToSQL. \<not> regexTest (pattern m) (trim (asc ''SELECT * FROM students'')))"
  by (simp add: specialCommands_def vietnameseToSQL_def eval_simps)

text \<open>
  Claim C4. A text whose trimmed form ends in a semicolon is complete. A text whose
  trimmed form does not end in a semicolon, is no special command, does not start with
  \<open>desc\<close> or \<open>describe\<close> followed by a space, and is matched by none of the Vietnamese
  patterns, is not complete.
\<close>

theorem isCommandComplete_terminator:
  "(endsWith (trim t) (asc '';'') \<longrightarrow> isCommandComplete t)
   \<and> (\<not> endsWith (trim t) (asc '';'')
        \<and> toLowerCase (trim t) \<notin> set specialCommands
        \<and> \<not> startsWith (toLowerCase (trim t)) (asc ''desc '')
        \<and> \<not> startsWith (toLowerCase (trim t)) (asc ''describe '')
        \<and> (\<forall>m \<in> set vietnameseToSQL. \<not> regexTest (pattern m) (trim t))
      \<longrightarrow> \<not> isCommandComplete t)"
  by (auto simp add: isCommandComplete_def Let_def list_ex_iff)

theorem isCommandComplete_terminator_witness:
  "endsWith (trim (asc ''SELECT * FROM students;'')) (asc '';'')
   \<and> isCommandComplete (asc ''SELECT * FROM students;'')
   \<and> \<not> endsWith (trim (asc ''SELECT * FROM students'')) (asc '';'')
   \<and> \<not> isCommandComplete (asc ''SELECT * FROM students'')"
  using isCommandComplete_terminator [of "asc ''SELECT * FROM students;''"]
    isCommandComplete_terminator [of "asc ''SELECT * FROM students''"]
    complete_example incomplete_example
  by blast

subsection \<open>Typo correction\<close>

lemma applyCorrections_length:
  "length (corrections acc) \<le> length (corrections (applyCorrections rs acc))"
proof (induction rs arbitrary: acc)
  case Nil
  then show ?case by simp
next
  case (Cons r rs)
  show ?case
    using Cons.IH [of acc]
      Cons.IH [of "\<lparr>fixed = regexReplaceAll (pattern r) (fixText r) (fixed acc),
                    corrections = corrections acc @ [message r]\<rparr>"]
    by (cases "regexTest (pattern r) (fixed acc)") auto
qed

lemma applyCorrections_none:
  "\<not> list_ex (\<lambda>c. regexTest (pattern c) (fixed acc)) rs \<Longrightarrow> applyCorrections rs acc = acc"
  by (induction rs arbitrary: acc) auto

lemma applyCorrections_silent:
  "corrections (applyCorrections rs acc) = [] \<longleftrightarrow>
     corrections acc = [] \<and> \<not> list_ex (\<lambda>c. regexTest (pattern c) (fixed acc)) rs"
proof (induction rs arbitrary: acc)
  case Nil
  then show ?case by simp
next
  case (Cons r rs)
  show ?case
  proof (cases "regexTest (pattern r) (fixed acc)")
    case True
    have "length (corrections acc @ [message r]) \<le>
          length (corrections (applyCorrections rs
            \<lparr>fixed = regexReplaceAll (pattern r) (fixText r) (fixed acc),
             corrections = corrections acc @ [message r]\<rparr>))"
      using applyCorrections_length
        [of "\<lparr>fixed = regexReplaceAll (pattern r) (fixText r) (fixed acc),
              corrections = corrections acc @ [message r]\<rparr>" rs]
      by simp
    then have "corrections (applyCorrections rs
            \<lparr>fixed = regexReplaceAll (pattern r) (fixText r) (fixed acc),
             corrections = corrections acc @ [message r]\<rparr>) \<noteq> []"
      by auto
    with True show ?thesis by simp
  next
    case False
    with Cons.IH show ?thesis by simp
  qed
qed

text \<open>
  Claim C6, as stated, fails: the text \<open>JIONSET\<close> is corrected to \<open>JOINSET\<close> by the last
  rule of the table, and a second pass then finds the pattern \<open>INSET\<close> of an earlier rule
  in it and rewrites the text to \<open>JOINSERT\<close>, reporting a correction.
\<close>

theorem fixSQLTypos_not_idempotent:
  "fixSQLTypos (asc ''JIONSET'') =
     \<lparr>fixed = asc ''JOINSET'', corrections = [correctionMessage (asc ''JION'') (asc ''JOIN'')]\<rparr>
   \<and> fixSQLTypos (fixed (fixSQLTypos (asc ''JIONSET''))) =
     \<lparr>fixed = asc ''JOINSERT'',
      corrections = [correctionMessage (asc ''INSET'') (asc ''INSERT'')]\<rparr>"
  by (simp add: fixSQLTypos_def sqlCorrections_def eval_simps)

text \<open>
  That is the only way for a second pass to do anything. The proof goes rule by rule:
  replacing the matches of a rule removes its pattern from the text and brings back the
  pattern of no rule before it, the pair \<open>JION\<close>, \<open>INSET\<close> apart.
\<close>

lemma pre_length: "pre w t \<Longrightarrow> length w \<le> length t"
  by (induction w t rule: pre.induct) simp_all

lemma matchSeq_lit_pre:
  "matchSeq (lit w @ re) (p, t, cs) =
     (if pre w t then matchSeq re (p + length w, drop (length w) t, cs) else [])"
proof (induction w arbitrary: p t)
  case Nil
  then show ?case by (simp add: lit_def)
next
  case (Cons c w)
  have l: "lit (c # w) = One (Chr c) # lit w"
    by (simp add: lit_def)
  show ?case
  proof (cases t)
    case Nil
    then show ?thesis by (simp add: l)
  next
    case (Cons x xs)
    then show ?thesis
      using Cons.IH [of "Suc p" xs] by (simp add: l)
  qed
qed

lemma matchSeq_lit_only:
  "matchSeq (lit w) (p, t, cs) = (if pre w t then [(p + length w, drop (length w) t, cs)] else [])"
  using matchSeq_lit_pre [of w "[]" p t cs] by simp

lemma greedy_lit:
  assumes "\<And>x t. isWhiteSpace x \<Longrightarrow> \<not> pre w (x # t)"
  shows "concat (map (matchSeq (lit w)) (map (\<lambda>(q, r). (q, r, cs)) (greedy Sp p xs))) =
         matchSeq (lit w) (p + length (takeWhile isWhiteSpace xs), dropWhile isWhiteSpace xs, cs)"
proof (induction xs arbitrary: p)
  case Nil
  then show ?case by simp
next
  case (Cons x xs)
  show ?case
  proof (cases "isWhiteSpace x")
    case True
    then have "matchSeq (lit w) (p, x # xs, cs) = []"
      using assms [of x xs] by (simp add: matchSeq_lit_only)
    then show ?thesis
      using True Cons.IH [of "Suc p"] by simp
  next
    case False
    then show ?thesis by simp
  qed
qed

lemma pre_whitespace:
  assumes "w \<noteq> []" and "\<forall>x. isWhiteSpace x \<longrightarrow> canonicalize x \<noteq> canonicalize (hd w)"
    and "isWhiteSpace x"
  shows "\<not> pre w (x # t)"
  using assms by (cases w) auto

lemma matchSeq_shape:
  assumes "wfShape J"
  shows "matchSeq (rxOf J) (p, t, cs) =
           (case mt J t of None \<Rightarrow> [] | Some r \<Rightarrow> [(p + (length t - length r), r, cs)])"
proof (cases J)
  case (Word w)
  show ?thesis
    using pre_length [of w t] by (simp add: Word matchSeq_lit_only)
next
  case (WordNotBefore w c)
  have "matchSeq (lit w @ [NotAhead (lit [c])]) (p, t, cs) =
      (if pre w t then matchSeq [NotAhead (lit [c])] (p + length w, drop (length w) t, cs) else [])"
    by (rule matchSeq_lit_pre)
  then show ?thesis
    using pre_length [of w t] by (simp add: WordNotBefore matchSeq_lit_only)
next
  case (TwoWords w1 w2)
  have nw: "\<And>x t. isWhiteSpace x \<Longrightarrow> \<not> pre w2 (x # t)"
    using assms pre_whitespace [of w2] by (simp add: TwoWords)
  have a: "matchSeq (lit w1 @ Plus Sp # lit w2) (p, t, cs) =
      (if pre w1 t then matchSeq (Plus Sp # lit w2) (p + length w1, drop (length w1) t, cs) else [])"
    by (rule matchSeq_lit_pre)
  show ?thesis
  proof (cases "pre w1 t")
    case False
    then show ?thesis by (simp add: TwoWords a)
  next
    case True
    note p1 = pre_length [OF True]
    show ?thesis
    proof (cases "drop (length w1) t")
      case Nil
      then show ?thesis using True by (simp add: TwoWords a)
    next
      case (Cons x xs)
      have lx: "length t = length w1 + Suc (length xs)"
        using Cons p1 by (metis le_add_diff_inverse length_Cons length_drop)
      have ld: "length (dropWhile isWhiteSpace xs) + length (takeWhile isWhiteSpace xs) = length xs"
        by (metis add.commute length_append takeWhile_dropWhile_id)
      show ?thesis
      proof (cases "isWhiteSpace x")
        case False
        then show ?thesis using True Cons by (simp add: TwoWords a)
      next
        case ws: True
        have "matchSeq (Plus Sp # lit w2) (p + length w1, x # xs, cs) =
            matchSeq (lit w2) (Suc (p + length w1) + length (takeWhile isWhiteSpace xs),
              dropWhile isWhiteSpace xs, cs)"
          using ws greedy_lit [OF nw, of cs "Suc (p + length w1)" xs] by simp
        then show ?thesis
          using True Cons ws lx ld pre_length [of w2 "dropWhile isWhiteSpace xs"]
          by (auto simp add: TwoWords a matchSeq_lit_only)
      qed
    qed
  qed
qed

lemma mt_suffix:
  assumes "wfShape J" and "mt J t = Some r"
  shows "\<exists>m. m \<noteq> [] \<and> t = m @ r"
proof (cases J)
  case (Word w)
  with assms have "pre w t" "r = drop (length w) t" "w \<noteq> []"
    by (auto split: if_splits)
  then have "t = take (length w) t @ r" "take (length w) t \<noteq> []"
    using pre_length [of w t] by auto
  then show ?thesis by blast
next
  case (WordNotBefore w c)
  with assms have "pre w t" "r = drop (length w) t" "w \<noteq> []"
    by (auto split: if_splits)
  then have "t = take (length w) t @ r" "take (length w) t \<noteq> []"
    using pre_length [of w t] by auto
  then show ?thesis by blast
next
  case (TwoWords w1 w2)
  with assms obtain x xs where x: "pre w1 t" "drop (length w1) t = x # xs"
      "r = drop (length w2) (dropWhile isWhiteSpace xs)"
    by (auto split: if_splits list.splits)
  have "t = take (length w1) t @ x # xs"
    using x(2) by (metis append_take_drop_id)
  moreover have "xs = takeWhile isWhiteSpace xs @ take (length w2) (dropWhile isWhiteSpace xs) @ r"
    unfolding x(3) by simp
  ultimately have "t = (take (length w1) t @ x # takeWhile isWhiteSpace xs
      @ take (length w2) (dropWhile isWhiteSpace xs)) @ r"
    by simp
  then show ?thesis by blast
qed

lemma mt_shorter: "wfShape J \<Longrightarrow> mt J t = Some r \<Longrightarrow> length r < length t"
  using mt_suffix [of J t r] by auto

lemma mt_Nil: "wfShape J \<Longrightarrow> mt J [] = None"
  using mt_shorter [of J "[]"] by (cases "mt J []") auto

lemma search_shape:
  assumes "wfShape J"
  shows "search (rxOf J) p t \<noteq> None \<longleftrightarrow> occS J t"
  by (induction t arbitrary: p) (simp_all add: matchSeq_shape [OF assms] split: option.split)

lemma regexTest_shape: "wfShape J \<Longrightarrow> regexTest (rxOf J) t \<longleftrightarrow> occS J t"
  using search_shape [of J 0 t] by (simp add: regexTest_def)

lemma replaceFrom_shape:
  "wfShape J \<Longrightarrow> replaceFrom (rxOf J) f p t = rewrite J f t"
proof (induction J f t arbitrary: p rule: rewrite.induct)
  case (1 J f)
  then show ?case by (simp add: matchSeq_shape split: option.split)
next
  case (2 J f x xs)
  note w = \<open>wfShape J\<close>
  show ?case
  proof (cases "mt J (x # xs)")
    case None
    then show ?thesis
      using 2(1) [OF None w] by (simp add: matchSeq_shape [OF w])
  next
    case (Some r)
    show ?thesis
    proof (cases "length r < length (x # xs)")
      case True
      then show ?thesis
        using 2(2) [OF Some True w] Some by (simp add: matchSeq_shape [OF w])
    next
      case False
      then show ?thesis
        using 2(3) [OF Some False w] Some by (simp add: matchSeq_shape [OF w])
    qed
  qed
qed

lemma regexReplaceAll_shape: "wfShape J \<Longrightarrow> regexReplaceAll (rxOf J) f t = rewrite J f t"
  by (simp add: regexReplaceAll_def replaceFrom_shape)

lemma pre_agree: "pre v (F @ b) \<Longrightarrow> agree v F"
  by (induction v F rule: agree.induct) simp_all

lemma pre_in: "length w \<le> length a \<Longrightarrow> pre w (a @ t) = pre w a"
  by (induction w a rule: pre.induct) simp_all

lemma nsuf_tl: "list_all P (nsuf w) \<Longrightarrow> list_all P (nsuf (tl w))"
  by (cases w) simp_all

lemma pre_window:
  assumes "a \<noteq> []" and "pre w (a @ F @ b)" and "list_all (\<lambda>v. \<not> agree v F) (nsuf (tl w))"
  shows "length w \<le> length a"
  using assms
proof (induction a arbitrary: w)
  case Nil
  then show ?case by simp
next
  case (Cons x a)
  show ?case
  proof (cases w)
    case Nil
    then show ?thesis by simp
  next
    case w: (Cons c ws)
    from Cons.prems(2) w have p: "pre ws (a @ F @ b)"
      by simp
    from Cons.prems(3) w have q: "list_all (\<lambda>v. \<not> agree v F) (nsuf ws)"
      by simp
    show ?thesis
    proof (cases "a = []")
      case True
      with p have "agree ws F"
        using pre_agree [of ws F b] by simp
      with q have "ws = []"
        by (cases ws) simp_all
      with w show ?thesis by simp
    next
      case False
      then have "length ws \<le> length a"
        using p nsuf_tl [OF q] by (rule Cons.IH)
      with w show ?thesis by simp
    qed
  qed
qed

lemma mt_firstWord: "mt J t \<noteq> None \<Longrightarrow> pre (firstWord J) t"
  by (cases J) (auto split: if_splits)

lemma pre_hd: "pre w (m @ b) \<Longrightarrow> w \<noteq> [] \<Longrightarrow> m \<noteq> [] \<Longrightarrow> canonicalize (hd m) = canonicalize (hd w)"
  by (cases w; cases m) simp_all

lemma drop_in: "n < length a \<Longrightarrow> drop n (a @ t) = drop n a @ t \<and> drop n a \<noteq> []"
  by simp

lemma mt_TwoWords_Cons:
  "pre w1 t \<Longrightarrow> drop (length w1) t = x # xs \<Longrightarrow>
   mt (TwoWords w1 w2) t \<noteq> None \<longleftrightarrow> isWhiteSpace x \<and> pre w2 (dropWhile isWhiteSpace xs)"
  by simp

lemma dropWhile_Cons_append: "dropWhile P xs = y # ys \<Longrightarrow> dropWhile P (xs @ t) = y # ys @ t"
  by (induction xs) (auto split: if_splits)

lemma headStable:
  assumes "wfShape K" and "quiet K J F" and "a \<noteq> []" and "m \<noteq> []" and "mt J (m @ b) = Some b"
    and "mt K (a @ F @ b) \<noteq> None"
  shows "mt K (a @ m @ b) \<noteq> None"
proof (cases K)
  case (Word w)
  from assms(6) have p: "pre w (a @ F @ b)"
    by (simp add: Word split: if_splits)
  then have "length w \<le> length a"
    using assms(2,3) pre_window [of a w F b] by (simp add: Word)
  then show ?thesis
    using p by (simp add: Word pre_in)
next
  case (WordNotBefore w c)
  from assms(6) have p: "pre w (a @ F @ b)" and n: "\<not> pre [c] (drop (length w) (a @ F @ b))"
    by (simp_all add: WordNotBefore split: if_splits)
  have l: "length w \<le> length a"
    using p assms(2,3) pre_window [of a w F b] by (simp add: WordNotBefore)
  then have p': "pre w (a @ m @ b)"
    using p by (simp add: pre_in)
  have "pre (firstWord J) (m @ b)"
    using assms(5) by (intro mt_firstWord) simp
  then have h: "canonicalize (hd m) \<noteq> canonicalize c"
    using assms(2,4) pre_hd [of "firstWord J" m b] by (simp add: WordNotBefore)
  have "\<not> pre [c] (drop (length w) (a @ m @ b))"
  proof (cases "length w < length a")
    case True
    then obtain y ys where "drop (length w) a = y # ys"
      by (cases "drop (length w) a") simp_all
    with n True show ?thesis by simp
  next
    case False
    with l have "length w = length a" by simp
    with h assms(4) show ?thesis by (cases m) simp_all
  qed
  with p' show ?thesis by (simp add: WordNotBefore)
next
  case (TwoWords w1 w2)
  from assms(6) have p: "pre w1 (a @ F @ b)"
    by (simp add: TwoWords split: if_splits)
  have q: "list_all (\<lambda>v. \<not> agree v F) (nsuf (tl w1))" "list_all (\<lambda>v. \<not> agree v F) (nsuf w2)"
    "F \<noteq> []" "\<not> isWhiteSpace (hd F)"
    using assms(2) by (simp_all add: TwoWords)
  have w2: "w2 \<noteq> []"
    using assms(1) by (simp add: TwoWords)
  have l: "length w1 \<le> length a"
    using assms(3) p q(1) by (rule pre_window)
  have p': "pre w1 (a @ m @ b)"
    using p l by (simp add: pre_in)
  have nF: "\<not> pre w2 (F @ b)"
    using q(2) w2 pre_agree [of w2 F b] by (cases w2) auto
  obtain f fs where F: "F = f # fs" "\<not> isWhiteSpace f"
    using q(3,4) by (cases F) simp_all
  have dF: "dropWhile isWhiteSpace (F @ b) = F @ b"
    using F by simp
  show ?thesis
  proof (cases "drop (length w1) a")
    case Nil
    then have "drop (length w1) (a @ F @ b) = f # fs @ b"
      using l F by simp
    then have "isWhiteSpace f"
      using assms(6) p mt_TwoWords_Cons [of w1 "a @ F @ b" f "fs @ b" w2] by (simp only: TwoWords)
    with F show ?thesis by simp
  next
    case (Cons x xs)
    then have d: "drop (length w1) (a @ t) = x # xs @ t" for t
      using l by simp
    have x: "isWhiteSpace x" and r: "pre w2 (dropWhile isWhiteSpace (xs @ F @ b))"
      using assms(6) p mt_TwoWords_Cons [OF p d [of "F @ b"], of w2] by (simp_all only: TwoWords)
    show ?thesis
    proof (cases "dropWhile isWhiteSpace xs")
      case Nil
      then have "dropWhile isWhiteSpace (xs @ F @ b) = F @ b"
        using dF by (simp add: dropWhile_append)
      with r nF show ?thesis by simp
    next
      case c: (Cons y ys)
      have e: "dropWhile isWhiteSpace (xs @ t) = (y # ys) @ t" for t
        using c by (simp add: dropWhile_Cons_append)
      from r have "pre w2 ((y # ys) @ F @ b)"
        by (simp only: e)
      then have "length w2 \<le> length (y # ys)"
        using nsuf_tl [OF q(2)] by (intro pre_window [of "y # ys" w2 F b]) simp_all
      then have "pre w2 ((y # ys) @ t) = pre w2 (y # ys)" for t
        by (rule pre_in)
      with r have "pre w2 (dropWhile isWhiteSpace (xs @ m @ b))"
        by (simp only: e)
      with x show ?thesis
        using mt_TwoWords_Cons [OF p' d [of "m @ b"], of w2] by (simp only: TwoWords)
    qed
  qed
qed

lemma mt_hits: "mt K (g @ b) \<noteq> None \<Longrightarrow> hits K g"
proof (cases K)
  case (Word w)
  assume "mt K (g @ b) \<noteq> None"
  then show ?thesis
    using pre_agree [of w g b] by (simp add: Word split: if_splits)
next
  case (WordNotBefore w c)
  assume a: "mt K (g @ b) \<noteq> None"
  then have p: "pre w (g @ b)" "\<not> pre [c] (drop (length w) (g @ b))"
    by (simp_all add: WordNotBefore split: if_splits)
  have "\<not> (length w < length g \<and> canonicalize (g ! length w) = canonicalize c)"
  proof
    assume l: "length w < length g \<and> canonicalize (g ! length w) = canonicalize c"
    then have "drop (length w) (g @ b) = g ! length w # drop (Suc (length w)) g @ b"
      by (simp add: Cons_nth_drop_Suc)
    with p(2) l show False by simp
  qed
  then show ?thesis
    using p(1) pre_agree [of w g b] by (simp add: WordNotBefore)
next
  case (TwoWords w1 w2)
  assume "mt K (g @ b) \<noteq> None"
  then show ?thesis
    using pre_agree [of w1 g b] by (simp add: TwoWords split: if_splits)
qed

lemma occS_silent: "list_all (\<lambda>g. \<not> hits K g) (nsuf F) \<Longrightarrow> occS K (F @ b) \<Longrightarrow> occS K b"
proof (induction F)
  case Nil
  then show ?case by simp
next
  case (Cons f F)
  from Cons.prems(1) have "\<not> hits K (f # F)"
    by simp
  then have "mt K ((f # F) @ b) = None"
    using mt_hits [of K "f # F" b] by blast
  with Cons show ?case by simp
qed

lemma occB_silent: "list_all (\<lambda>g. \<not> hits K g) (nsuf F) \<Longrightarrow> \<not> occB K (length F) (F @ b)"
proof (induction F)
  case Nil
  then show ?case by simp
next
  case (Cons f F)
  from Cons.prems(1) have "\<not> hits K (f # F)"
    by simp
  then have "mt K ((f # F) @ b) = None"
    using mt_hits [of K "f # F" b] by blast
  with Cons show ?case by simp
qed

lemma occS_append: "occS K b \<Longrightarrow> occS K (m @ b)"
  by (induction m) simp_all

lemma single:
  assumes "\<And>a. a \<noteq> [] \<Longrightarrow> mt K (a @ F @ b) \<noteq> None \<Longrightarrow> mt K (a @ m @ b) \<noteq> None"
    and "occS K (F @ b) \<Longrightarrow> occS K (m @ b)"
  shows "occS K (a @ F @ b) \<Longrightarrow> occS K (a @ m @ b)"
proof (induction a)
  case Nil
  then show ?case using assms(2) by simp
next
  case (Cons x a)
  from Cons.prems have "mt K ((x # a) @ F @ b) \<noteq> None \<or> occS K (a @ F @ b)"
    by simp
  then show ?case
  proof
    assume "mt K ((x # a) @ F @ b) \<noteq> None"
    then have "mt K ((x # a) @ m @ b) \<noteq> None"
      by (intro assms(1)) simp_all
    then show ?thesis by simp
  next
    assume "occS K (a @ F @ b)"
    then show ?thesis using Cons.IH by simp
  qed
qed

lemma singleB:
  assumes "\<And>a. a \<noteq> [] \<Longrightarrow> mt J (a @ F @ b) \<noteq> None \<Longrightarrow> mt J (a @ m @ b) \<noteq> None"
    and "\<not> occB J (length F) (F @ b)"
  shows "occB J (length a + length F) (a @ F @ b) \<Longrightarrow> occB J (length a) (a @ m @ b)"
proof (induction a)
  case Nil
  then show ?case using assms(2) by simp
next
  case (Cons x a)
  from Cons.prems have "mt J ((x # a) @ F @ b) \<noteq> None \<or> occB J (length a + length F) (a @ F @ b)"
    by simp
  then show ?case
  proof
    assume "mt J ((x # a) @ F @ b) \<noteq> None"
    then have "mt J ((x # a) @ m @ b) \<noteq> None"
      by (intro assms(1)) simp_all
    then show ?thesis by simp
  next
    assume "occB J (length a + length F) (a @ F @ b)"
    then show ?thesis using Cons.IH by simp
  qed
qed

lemma occB_append:
  "occB K (length a + n) (a @ t) \<longleftrightarrow> occB K (length a) (a @ t) \<or> occB K n t"
  by (induction a) auto

lemma occS_occB: "occS K t \<longleftrightarrow> occB K (Suc (length t)) t"
  by (induction t) simp_all

lemma keep:
  assumes "wfShape J"
    and "\<And>a m b. m \<noteq> [] \<Longrightarrow> mt J (m @ b) = Some b \<Longrightarrow> occS K (a @ F @ b) \<Longrightarrow> occS K (a @ m @ b)"
  shows "occS K (a @ rewrite J F X) \<Longrightarrow> occS K (a @ X)"
proof (induction "length X" arbitrary: X a rule: less_induct)
  case less
  show ?case
  proof (cases X)
    case Nil
    with less.prems show ?thesis
      by (simp add: mt_Nil [OF assms(1)])
  next
    case (Cons x xs)
    show ?thesis
    proof (cases "mt J (x # xs)")
      case None
      have "occS K ((a @ [x]) @ rewrite J F xs)"
        using less.prems Cons None by simp
      then have "occS K ((a @ [x]) @ xs)"
        using less.hyps [of xs "a @ [x]"] Cons by simp
      then show ?thesis using Cons by simp
    next
      case (Some r)
      then obtain m where m: "m \<noteq> []" "x # xs = m @ r"
        using mt_suffix [OF assms(1)] by blast
      have l: "length r < length (x # xs)"
        using assms(1) Some by (rule mt_shorter)
      have "occS K ((a @ F) @ rewrite J F r)"
        using less.prems Cons Some l by simp
      then have "occS K ((a @ F) @ r)"
        using less.hyps [of r "a @ F"] Cons l by simp
      then have "occS K (a @ m @ r)"
        using assms(2) [OF m(1), of r a] m Some by simp
      then show ?thesis using Cons m by simp
    qed
  qed
qed

lemma vanish:
  assumes "wfShape J"
    and "\<And>a m b. m \<noteq> [] \<Longrightarrow> mt J (m @ b) = Some b \<Longrightarrow>
           occB J (length a + length F) (a @ F @ b) \<Longrightarrow> occB J (length a) (a @ m @ b)"
  shows "\<not> occB J (length a) (a @ X) \<Longrightarrow> \<not> occS J (a @ rewrite J F X)"
proof (induction "length X" arbitrary: X a rule: less_induct)
  case less
  show ?case
  proof (cases X)
    case Nil
    have "occB J (length a + 1) (a @ []) \<longleftrightarrow> occB J (length a) (a @ []) \<or> occB J 1 []"
      by (rule occB_append)
    with less.prems Nil show ?thesis
      by (simp add: mt_Nil [OF assms(1)] occS_occB)
  next
    case (Cons x xs)
    show ?thesis
    proof (cases "mt J (x # xs)")
      case None
      have "occB J (length a + 1) (a @ x # xs) \<longleftrightarrow>
            occB J (length a) (a @ x # xs) \<or> occB J 1 (x # xs)"
        by (rule occB_append)
      then have "\<not> occB J (length (a @ [x])) ((a @ [x]) @ xs)"
        using less.prems Cons None by simp
      then have "\<not> occS J ((a @ [x]) @ rewrite J F xs)"
        using less.hyps [of xs "a @ [x]"] Cons by simp
      then show ?thesis using Cons None by simp
    next
      case (Some r)
      then obtain m where m: "m \<noteq> []" "x # xs = m @ r"
        using mt_suffix [OF assms(1)] by blast
      have l: "length r < length (x # xs)"
        using assms(1) Some by (rule mt_shorter)
      have "\<not> occB J (length a + length F) (a @ F @ r)"
        using assms(2) [OF m(1), of r a] Some m less.prems Cons by auto
      then have "\<not> occB J (length (a @ F)) ((a @ F) @ r)"
        by simp
      then have "\<not> occS J ((a @ F) @ rewrite J F r)"
        using less.hyps [of r "a @ F"] Cons l by simp
      then show ?thesis using Cons Some l by simp
    qed
  qed
qed

lemma pre_canonical:
  "map canonicalize t = map canonicalize t' \<Longrightarrow> pre w (t @ b) = pre w (t' @ b)"
proof (induction w arbitrary: t t')
  case Nil
  then show ?case by simp
next
  case (Cons c w)
  show ?case
  proof (cases t)
    case Nil
    with Cons.prems show ?thesis by simp
  next
    case t: (Cons x xs)
    with Cons.prems obtain y ys where t': "t' = y # ys"
      by (cases t') simp_all
    with Cons.prems t have "canonicalize x = canonicalize y" "map canonicalize xs = map canonicalize ys"
      by simp_all
    then show ?thesis
      using Cons.IH [of xs ys] by (simp add: t t')
  qed
qed

lemma pre_map: "pre w t \<Longrightarrow> map canonicalize (take (length w) t) = map canonicalize w"
  by (induction w t rule: pre.induct) simp_all

lemma occS_inside: "mt K (g @ b) \<noteq> None \<Longrightarrow> occS K (m @ g @ b)"
proof (induction m)
  case Nil
  then show ?case by (cases "g @ b") simp_all
next
  case (Cons x m)
  then show ?case by simp
qed

lemma excused_occurs:
  assumes "excused K J g" and "mt J (m @ b) = Some b" and "mt K (g @ b) \<noteq> None"
  shows "occS K (m @ b)"
proof -
  from assms(1) obtain w wj where K: "K = Word w" and J: "J = Word wj"
    by (cases K; cases J) simp_all
  from assms(1) have l: "length g \<le> length wj"
    and e: "map canonicalize g = map canonicalize (drop (length wj - length g) wj)"
    by (simp_all add: K J)
  from assms(2) have p: "pre wj (m @ b)" and b: "b = drop (length wj) (m @ b)"
    by (simp_all add: J split: if_splits)
  have "length (m @ b) - length wj = length b"
    using b by (metis length_drop)
  then have lm: "length m = length wj"
    using pre_length [OF p] by simp
  then have "map canonicalize m = map canonicalize wj"
    using pre_map [OF p] by simp
  then have "drop (length wj - length g) (map canonicalize m) =
      drop (length wj - length g) (map canonicalize wj)"
    by simp
  then have "map canonicalize (drop (length wj - length g) m) = map canonicalize g"
    unfolding drop_map using e by simp
  then have "pre w (drop (length wj - length g) m @ b) = pre w (g @ b)"
    by (rule pre_canonical)
  moreover have "pre w (g @ b)"
    using assms(3) by (simp add: K split: if_splits)
  ultimately have "mt K (drop (length wj - length g) m @ b) \<noteq> None"
    by (simp add: K)
  then have "occS K (take (length wj - length g) m @ drop (length wj - length g) m @ b)"
    by (rule occS_inside)
  moreover have "take (length wj - length g) m @ drop (length wj - length g) m @ b = m @ b"
    by (simp only: append_assoc [symmetric] append_take_drop_id)
  ultimately show ?thesis by simp
qed

lemma occS_silentFor:
  assumes "mt J (m @ b) = Some b"
  shows "list_all (\<lambda>g. \<not> hits K g \<or> excused K J g) (nsuf G) \<Longrightarrow> occS K (G @ b) \<Longrightarrow>
         occS K (m @ b)"
proof (induction G)
  case Nil
  then show ?case by (simp add: occS_append)
next
  case (Cons f G)
  from Cons.prems(2) have "mt K ((f # G) @ b) \<noteq> None \<or> occS K (G @ b)"
    by simp
  then show ?case
  proof
    assume h: "mt K ((f # G) @ b) \<noteq> None"
    then have "hits K (f # G)"
      by (rule mt_hits)
    with Cons.prems(1) have "excused K J (f # G)"
      by simp
    then show ?thesis
      using assms h by (rule excused_occurs)
  next
    assume "occS K (G @ b)"
    with Cons show ?thesis by simp
  qed
qed

lemma rewrite_keeps_clean:
  assumes "wfShape J" and "wfShape K" and "quiet K J F" and "silentFor K J F" and "\<not> occS K X"
  shows "\<not> occS K (rewrite J F X)"
proof -
  have s: "occS K (a @ m @ b)"
    if "m \<noteq> []" "mt J (m @ b) = Some b" "occS K (a @ F @ b)" for a m b
  proof -
    have "mt K (a' @ m @ b) \<noteq> None" if "a' \<noteq> []" "mt K (a' @ F @ b) \<noteq> None" for a'
      using assms(2,3) that(1) \<open>m \<noteq> []\<close> \<open>mt J (m @ b) = Some b\<close> that(2) by (rule headStable)
    moreover have "occS K (F @ b) \<Longrightarrow> occS K (m @ b)"
      using assms(4) occS_silentFor [OF \<open>mt J (m @ b) = Some b\<close>, of K F] by (simp add: silentFor_def)
    ultimately show ?thesis
      using \<open>occS K (a @ F @ b)\<close> by (rule single)
  qed
  have "occS K ([] @ rewrite J F X) \<Longrightarrow> occS K ([] @ X)"
    using assms(1) s by (rule keep)
  with assms(5) show ?thesis by auto
qed

lemma rewrite_removes:
  assumes "wfShape J" and "quiet J J F" and "silent J F"
  shows "\<not> occS J (rewrite J F X)"
proof -
  have s: "occB J (length a) (a @ m @ b)"
    if "m \<noteq> []" "mt J (m @ b) = Some b" "occB J (length a + length F) (a @ F @ b)" for a m b
  proof -
    have "mt J (a' @ m @ b) \<noteq> None" if "a' \<noteq> []" "mt J (a' @ F @ b) \<noteq> None" for a'
      using assms(1,2) that(1) \<open>m \<noteq> []\<close> \<open>mt J (m @ b) = Some b\<close> that(2) by (rule headStable)
    moreover have "\<not> occB J (length F) (F @ b)"
      using assms(3) occB_silent [of J F b] by (simp add: silent_def)
    ultimately show ?thesis
      using \<open>occB J (length a + length F) (a @ F @ b)\<close> by (rule singleB)
  qed
  have "\<not> occB J (length ([] :: jsstring)) ([] @ X) \<Longrightarrow> \<not> occS J ([] @ rewrite J F X)"
    using assms(1) s by (rule vanish)
  then show ?thesis by auto
qed

lemma chain_clean:
  assumes "safeChain D rules" and "list_all wfShape D" and "list_all (\<lambda>r. wfShape (fst r)) rules"
    and "\<forall>K \<in> set D. \<not> occS K t"
  shows "\<forall>K \<in> set (D @ tracked rules). \<not> occS K (foldl stepS t rules)"
  using assms
proof (induction rules arbitrary: D t)
  case Nil
  then show ?case by (simp add: tracked_def)
next
  case (Cons rule rules)
  obtain J F tr where rule: "rule = (J, F, tr)"
    by (cases rule)
  let ?t = "stepS t (J, F, tr)"
  let ?D = "if tr then D @ [J] else D"
  have w: "wfShape J"
    using Cons.prems(3) rule by simp
  have s: "list_all (\<lambda>K. quiet K J F \<and> silentFor K J F) D" "tr \<longrightarrow> quiet J J F \<and> silent J F"
      "safeChain ?D rules"
    using Cons.prems(1) rule by simp_all
  have old: "\<not> occS K ?t" if "K \<in> set D" for K
  proof -
    have "wfShape K" "quiet K J F" "silentFor K J F" "\<not> occS K t"
      using that Cons.prems(2,4) s(1) by (simp_all add: list_all_iff)
    then show ?thesis
      using rewrite_keeps_clean [OF w, of K F t] by simp
  qed
  have new: "\<not> occS J ?t" if tr
    using that s(2) rewrite_removes [OF w, of F t] by simp
  have "\<forall>K \<in> set (?D @ tracked rules). \<not> occS K (foldl stepS ?t rules)"
  proof (rule Cons.IH [OF s(3)])
    show "list_all wfShape ?D"
      using Cons.prems(2) w by simp
    show "list_all (\<lambda>r. wfShape (fst r)) rules"
      using Cons.prems(3) by simp
    show "\<forall>K \<in> set ?D. \<not> occS K ?t"
      using old new by auto
  qed
  then show ?case
    by (auto simp add: rule tracked_def)
qed

lemma fixed_applyCorrections:
  assumes "list_all2 (\<lambda>c (J, F, tr). pattern c = rxOf J \<and> fixText c = F \<and> wfShape J) cs rules"
  shows "fixed (applyCorrections cs acc) = foldl stepS (fixed acc) rules"
  using assms
proof (induction cs rules arbitrary: acc rule: list_all2_induct)
  case Nil
  then show ?case by simp
next
  case (Cons c cs rule rules)
  obtain J F tr where rule: "rule = (J, F, tr)"
    by (cases rule)
  with Cons.hyps(1) have c: "pattern c = rxOf J" "fixText c = F" "wfShape J"
    by simp_all
  show ?case
    using Cons.IH by (simp add: rule c regexTest_shape regexReplaceAll_shape)
qed

lemma canonicalize_below: "c < 97 \<Longrightarrow> canonicalize c = c"
  by (auto simp add: canonicalize_def upperCaseTable_def)

lemma canonicalize_B: "canonicalize x = 66 \<Longrightarrow> x = 66 \<or> x = 98"
  by (auto simp add: canonicalize_def upperCaseTable_def split: if_splits)

lemma whitespace_not_B: "isWhiteSpace x \<Longrightarrow> canonicalize x \<noteq> canonicalize 66"
proof
  assume w: "isWhiteSpace x" and "canonicalize x = canonicalize 66"
  then have "canonicalize x = 66"
    by (simp add: canonicalize_below)
  then have "x = 66 \<or> x = 98"
    by (rule canonicalize_B)
  with w show False
    by (auto simp add: isWhiteSpace_def)
qed

lemma typoRules_wf: "list_all (\<lambda>r. wfShape (fst r)) typoRules"
  using whitespace_not_B by (simp add: typoRules_def asc_def)

lemma typoRules_table:
  "list_all2 (\<lambda>c (J, F, tr). pattern c = rxOf J \<and> fixText c = F \<and> wfShape J) sqlCorrections typoRules"
  using whitespace_not_B by (simp add: sqlCorrections_def typoRules_def asc_def)

lemma typoRules_safe: "safeChain [] typoRules"
  by (simp add: typoRules_def silent_def silentFor_def asc_def canonicalize_below isWhiteSpace_def)

lemma typoRulesBeforeLast_safe: "safeChain [] typoRulesBeforeLast"
  by (simp add: typoRulesBeforeLast_def typoRules_def silent_def silentFor_def asc_def
      canonicalize_below isWhiteSpace_def)

lemma typoRulesBeforeLast_wf: "list_all (\<lambda>r. wfShape (fst r)) typoRulesBeforeLast"
  using whitespace_not_B by (simp add: typoRulesBeforeLast_def typoRules_def asc_def)

lemma typoRulesBeforeLast_table:
  "list_all2 (\<lambda>c (J, F, tr). pattern c = rxOf J \<and> fixText c = F \<and> wfShape J)
     (butlast sqlCorrections) typoRulesBeforeLast"
  using whitespace_not_B
  by (simp add: sqlCorrections_def typoRulesBeforeLast_def typoRules_def asc_def)

lemma applyCorrections_append:
  "applyCorrections (xs @ ys) acc = applyCorrections ys (applyCorrections xs acc)"
  by (induction xs arbitrary: acc) simp_all

lemma first_pass_clean:
  "\<forall>K \<in> set (tracked typoRules). \<not> occS K (fixed (fixSQLTypos s))"
proof -
  have "fixed (fixSQLTypos s) = foldl stepS s typoRules"
    using fixed_applyCorrections [OF typoRules_table, of "\<lparr>fixed = s, corrections = []\<rparr>"]
    by (simp add: fixSQLTypos_def)
  then show ?thesis
    using chain_clean [OF typoRules_safe _ typoRules_wf, of s] by simp
qed

lemma before_last_clean:
  "\<forall>K \<in> set (tracked typoRulesBeforeLast).
     \<not> occS K (fixed (applyCorrections (butlast sqlCorrections) \<lparr>fixed = s, corrections = []\<rparr>))"
proof -
  have "fixed (applyCorrections (butlast sqlCorrections) \<lparr>fixed = s, corrections = []\<rparr>) =
      foldl stepS s typoRulesBeforeLast"
    using fixed_applyCorrections [OF typoRulesBeforeLast_table, of "\<lparr>fixed = s, corrections = []\<rparr>"]
    by simp
  then show ?thesis
    using chain_clean [OF typoRulesBeforeLast_safe _ typoRulesBeforeLast_wf, of s] by simp
qed

lemma word_shape: "w \<noteq> [] \<Longrightarrow> regexTest (lit w) t \<longleftrightarrow> occS (Word w) t"
  using regexTest_shape [of "Word w" t] by simp

lemma second_pass_rules:
  "list_ex (\<lambda>c. regexTest (pattern c) (fixed (fixSQLTypos s))) sqlCorrections \<longleftrightarrow>
     regexTest (lit (asc ''INSET'')) (fixed (fixSQLTypos s))"
proof -
  have w: "wfShape (TwoWords (asc ''ODER'') (asc ''BY''))" "wfShape (TwoWords (asc ''GRUOP'') (asc ''BY''))"
    using whitespace_not_B by (simp_all add: asc_def)
  have r: "regexTest (lit (asc ''ODER'') @ Plus Sp # lit (asc ''BY'')) t \<longleftrightarrow>
        occS (TwoWords (asc ''ODER'') (asc ''BY'')) t"
      "regexTest (lit (asc ''GRUOP'') @ Plus Sp # lit (asc ''BY'')) t \<longleftrightarrow>
        occS (TwoWords (asc ''GRUOP'') (asc ''BY'')) t"
      "regexTest (lit (asc ''WHER'') @ [NotAhead (lit (asc ''E''))]) t \<longleftrightarrow>
        occS (WordNotBefore (asc ''WHER'') 69) t" for t
    using regexTest_shape [OF w(1), of t] regexTest_shape [OF w(2), of t]
      regexTest_shape [of "WordNotBefore (asc ''WHER'') 69" t]
    by (simp_all add: asc_def)
  have n: "asc ''SLECT'' \<noteq> []" "asc ''FORM'' \<noteq> []" "asc ''DELTE'' \<noteq> []" "asc ''UDPATE'' \<noteq> []"
    "asc ''INSET'' \<noteq> []" "asc ''VALEUS'' \<noteq> []" "asc ''JION'' \<noteq> []"
    by (simp_all add: asc_def)
  show ?thesis
    using first_pass_clean [of s]
    unfolding sqlCorrections_def
    by (simp add: r n [THEN word_shape] tracked_def typoRules_def)
qed

lemma last_rule:
  "sqlCorrections = butlast sqlCorrections @
     [\<lparr>pattern = lit (asc ''JION''), fixText = asc ''JOIN'',
       message = correctionMessage (asc ''JION'') (asc ''JOIN'')\<rparr>]"
  by (simp add: sqlCorrections_def)

lemma inset_needs_join:
  assumes "regexTest (lit (asc ''INSET'')) (fixed (fixSQLTypos s))"
  shows "correctionMessage (asc ''JION'') (asc ''JOIN'') \<in> set (corrections (fixSQLTypos s))"
proof -
  let ?acc = "applyCorrections (butlast sqlCorrections) \<lparr>fixed = s, corrections = []\<rparr>"
  let ?c = "\<lparr>pattern = lit (asc ''JION''), fixText = asc ''JOIN'',
             message = correctionMessage (asc ''JION'') (asc ''JOIN'')\<rparr>"
  have f: "fixSQLTypos s = applyCorrections [?c] ?acc"
    unfolding fixSQLTypos_def using applyCorrections_append [of "butlast sqlCorrections" "[?c]"] last_rule
    by simp
  have n: "asc ''INSET'' \<noteq> []"
    by (simp add: asc_def)
  have "\<not> occS (Word (asc ''INSET'')) (fixed ?acc)"
    using before_last_clean [of s] by (simp add: tracked_def typoRulesBeforeLast_def typoRules_def)
  then have "\<not> regexTest (lit (asc ''INSET'')) (fixed ?acc)"
    by (simp add: word_shape [OF n])
  with assms have "regexTest (lit (asc ''JION'')) (fixed ?acc)"
    unfolding f by (cases "regexTest (lit (asc ''JION'')) (fixed ?acc)") simp_all
  then show ?thesis
    unfolding f by simp
qed

lemma typo_examples:
  "fixSQLTypos (asc ''SLECT * FORM students;'') =
     \<lparr>fixed = asc ''SELECT * FROM students;'',
      corrections = [correctionMessage (asc ''SLECT'') (asc ''SELECT''),
                     correctionMessage (asc ''FORM'') (asc ''FROM'')]\<rparr>"
  "\<not> regexTest (lit (asc ''INSET'')) (asc ''SELECT * FROM students;'')"
  "fixSQLTypos (asc ''JIONSET'') =
     \<lparr>fixed = asc ''JOINSET'', corrections = [correctionMessage (asc ''JION'') (asc ''JOIN'')]\<rparr>"
  "regexTest (lit (asc ''INSET'')) (asc ''JOINSET'')"
  by (simp_all add: fixSQLTypos_def sqlCorrections_def eval_simps)

lemma inset_rewrite_clean:
  assumes "\<not> occS (Word (asc ''VALEUS'')) t" and "\<not> occS (Word (asc ''JION'')) t"
  shows "\<not> occS (Word (asc ''VALEUS'')) (rewrite (Word (asc ''INSET'')) (asc ''INSERT'') t)"
    and "\<not> occS (Word (asc ''JION'')) (rewrite (Word (asc ''INSET'')) (asc ''INSERT'') t)"
proof -
  have w: "wfShape (Word (asc ''INSET''))" "wfShape (Word (asc ''VALEUS''))" "wfShape (Word (asc ''JION''))"
    by (simp_all add: asc_def)
  have q: "quiet (Word (asc ''VALEUS'')) (Word (asc ''INSET'')) (asc ''INSERT'')"
    "silentFor (Word (asc ''VALEUS'')) (Word (asc ''INSET'')) (asc ''INSERT'')"
    "quiet (Word (asc ''JION'')) (Word (asc ''INSET'')) (asc ''INSERT'')"
    "silentFor (Word (asc ''JION'')) (Word (asc ''INSET'')) (asc ''INSERT'')"
    by (simp_all add: silentFor_def asc_def canonicalize_below)
  show "\<not> occS (Word (asc ''VALEUS'')) (rewrite (Word (asc ''INSET'')) (asc ''INSERT'') t)"
    using w(1,2) q(1,2) assms(1) by (rule rewrite_keeps_clean)
  show "\<not> occS (Word (asc ''JION'')) (rewrite (Word (asc ''INSET'')) (asc ''INSERT'') t)"
    using w(1,3) q(3,4) assms(2) by (rule rewrite_keeps_clean)
qed

lemma second_pass_inset:
  assumes "regexTest (lit (asc ''INSET'')) (fixed (fixSQLTypos s))"
  shows "fixSQLTypos (fixed (fixSQLTypos s)) =
     \<lparr>fixed = regexReplaceAll (lit (asc ''INSET'')) (asc ''INSERT'') (fixed (fixSQLTypos s)),
      corrections = [correctionMessage (asc ''INSET'') (asc ''INSERT'')]\<rparr>"
proof -
  define out where "out = fixed (fixSQLTypos s)"
  have w: "wfShape (TwoWords (asc ''ODER'') (asc ''BY''))" "wfShape (TwoWords (asc ''GRUOP'') (asc ''BY''))"
    using whitespace_not_B by (simp_all add: asc_def)
  have r: "regexTest (lit (asc ''ODER'') @ Plus Sp # lit (asc ''BY'')) t \<longleftrightarrow>
        occS (TwoWords (asc ''ODER'') (asc ''BY'')) t"
      "regexTest (lit (asc ''GRUOP'') @ Plus Sp # lit (asc ''BY'')) t \<longleftrightarrow>
        occS (TwoWords (asc ''GRUOP'') (asc ''BY'')) t"
      "regexTest (lit (asc ''WHER'') @ [NotAhead (lit (asc ''E''))]) t \<longleftrightarrow>
        occS (WordNotBefore (asc ''WHER'') 69) t" for t
    using regexTest_shape [OF w(1), of t] regexTest_shape [OF w(2), of t]
      regexTest_shape [of "WordNotBefore (asc ''WHER'') 69" t]
    by (simp_all add: asc_def)
  have n: "asc ''SLECT'' \<noteq> []" "asc ''FORM'' \<noteq> []" "asc ''DELTE'' \<noteq> []" "asc ''UDPATE'' \<noteq> []"
    "asc ''INSET'' \<noteq> []" "asc ''VALEUS'' \<noteq> []" "asc ''JION'' \<noteq> []"
    by (simp_all add: asc_def)
  have c: "\<not> occS (Word (asc ''SLECT'')) out" "\<not> occS (Word (asc ''FORM'')) out"
    "\<not> occS (WordNotBefore (asc ''WHER'') 69) out"
    "\<not> occS (TwoWords (asc ''ODER'') (asc ''BY'')) out"
    "\<not> occS (TwoWords (asc ''GRUOP'') (asc ''BY'')) out"
    "\<not> occS (Word (asc ''DELTE'')) out" "\<not> occS (Word (asc ''UDPATE'')) out"
    "\<not> occS (Word (asc ''VALEUS'')) out" "\<not> occS (Word (asc ''JION'')) out"
    using first_pass_clean [of s] by (simp_all add: out_def tracked_def typoRules_def)
  have i: "occS (Word (asc ''INSET'')) out"
    using assms by (simp add: out_def word_shape [OF n(5)])
  have e: "regexReplaceAll (lit (asc ''INSET'')) (asc ''INSERT'') out =
      rewrite (Word (asc ''INSET'')) (asc ''INSERT'') out"
    using regexReplaceAll_shape [of "Word (asc ''INSET'')" "asc ''INSERT''" out] n(5) by simp
  have "fixSQLTypos out =
     \<lparr>fixed = regexReplaceAll (lit (asc ''INSET'')) (asc ''INSERT'') out,
      corrections = [correctionMessage (asc ''INSET'') (asc ''INSERT'')]\<rparr>"
    unfolding fixSQLTypos_def sqlCorrections_def
    using c i inset_rewrite_clean [OF c(8,9)]
    by (simp add: r n [THEN word_shape] e)
  then show ?thesis
    by (simp add: out_def)
qed

text \<open>
  Claim C6, amended. For every input text, applying \<open>fixSQLTypos\<close> to its own output
  yields the same text and an empty list of corrections, unless that output contains
  \<open>INSET\<close> (in any letter case). An output contains \<open>INSET\<close> only if the pass that made it
  applied the correction of \<open>JION\<close> to \<open>JOIN\<close>; the second pass then replaces \<open>INSET\<close> by
  \<open>INSERT\<close> and reports this one correction.
\<close>

theorem fixSQLTypos_second_pass:
  "(fixSQLTypos (fixed (fixSQLTypos s)) = \<lparr>fixed = fixed (fixSQLTypos s), corrections = []\<rparr>
      \<longleftrightarrow> \<not> regexTest (lit (asc ''INSET'')) (fixed (fixSQLTypos s)))
   \<and> (regexTest (lit (asc ''INSET'')) (fixed (fixSQLTypos s)) \<longrightarrow>
        correctionMessage (asc ''JION'') (asc ''JOIN'') \<in> set (corrections (fixSQLTypos s))
        \<and> fixSQLTypos (fixed (fixSQLTypos s)) =
            \<lparr>fixed = regexReplaceAll (lit (asc ''INSET'')) (asc ''INSERT'') (fixed (fixSQLTypos s)),
             corrections = [correctionMessage (asc ''INSET'') (asc ''INSERT'')]\<rparr>)"
proof -
  have "fixSQLTypos t = \<lparr>fixed = t, corrections = []\<rparr> \<longleftrightarrow>
      \<not> list_ex (\<lambda>c. regexTest (pattern c) t) sqlCorrections" for t
  proof
    assume "fixSQLTypos t = \<lparr>fixed = t, corrections = []\<rparr>"
    then have "corrections (applyCorrections sqlCorrections \<lparr>fixed = t, corrections = []\<rparr>) = []"
      by (simp add: fixSQLTypos_def)
    then show "\<not> list_ex (\<lambda>c. regexTest (pattern c) t) sqlCorrections"
      by (simp add: applyCorrections_silent)
  next
    assume "\<not> list_ex (\<lambda>c. regexTest (pattern c) t) sqlCorrections"
    then show "fixSQLTypos t = \<lparr>fixed = t, corrections = []\<rparr>"
      by (simp add: fixSQLTypos_def applyCorrections_none)
  qed
  then have "fixSQLTypos (fixed (fixSQLTypos s)) = \<lparr>fixed = fixed (fixSQLTypos s), corrections = []\<rparr>
      \<longleftrightarrow> \<not> regexTest (lit (asc ''INSET'')) (fixed (fixSQLTypos s))"
    using second_pass_rules [of s] by simp
  then show ?thesis
    using inset_needs_join [of s] second_pass_inset [of s] by blast
qed

theorem fixSQLTypos_second_pass_witness:
  "fixSQLTypos (fixed (fixSQLTypos (asc ''SLECT * FORM students;''))) =
     \<lparr>fixed = asc ''SELECT * FROM students;'', corrections = []\<rparr>
   \<and> regexTest (lit (asc ''INSET'')) (fixed (fixSQLTypos (asc ''JIONSET'')))
   \<and> correctionMessage (asc ''JION'') (asc ''JOIN'') \<in> set (corrections (fixSQLTypos (asc ''JIONSET'')))
   \<and> fixSQLTypos (fixed (fixSQLTypos (asc ''JIONSET''))) =
       \<lparr>fixed = regexReplaceAll (lit (asc ''INSET'')) (asc ''INSERT'') (asc ''JOINSET''),
        corrections = [correctionMessage (asc ''INSET'') (asc ''INSERT'')]\<rparr>"
  using fixSQLTypos_second_pass [of "asc ''SLECT * FORM students;''"]
    fixSQLTypos_second_pass [of "asc ''JIONSET''"]
  by (simp add: typo_examples)

subsection \<open>What the handlers leave unchanged\<close>

lemma addEntry_simps [simp]:
  "buffer (addEntry t c tbl st) = buffer st"
  "currentLine (addEntry t c tbl st) = currentLine st"
  "commandHistory (addEntry t c tbl st) = commandHistory st"
  "historyIndex (addEntry t c tbl st) = historyIndex st"
  "aiEnabled (addEntry t c tbl st) = aiEnabled st"
  "learningMode (addEntry t c tbl st) = learningMode st"
  "pendingDangerousCommand (addEntry t c tbl st) = pendingDangerousCommand st"
  "isMultiLine (addEntry t c tbl st) = isMultiLine st"
  "database (addEntry t c tbl st) = database st"
  "executed (addEntry t c tbl st) = executed st"
  "submitted (addEntry t c tbl st) = submitted st"
  "idCounter (addEntry t c tbl st) = Suc (idCounter st)"
  "history (addEntry t c tbl st) =
     history st @ [\<lparr>entry_id = idCounter st, entry_type = t, content = c, entry_table = tbl\<rparr>]"
  by (simp_all add: addEntry_def)

lemma addEntries_frame [simp]:
  "buffer (addEntries es st) = buffer st"
  "currentLine (addEntries es st) = currentLine st"
  "commandHistory (addEntries es st) = commandHistory st"
  "historyIndex (addEntries es st) = historyIndex st"
  "aiEnabled (addEntries es st) = aiEnabled st"
  "learningMode (addEntries es st) = learningMode st"
  "pendingDangerousCommand (addEntries es st) = pendingDangerousCommand st"
  "isMultiLine (addEntries es st) = isMultiLine st"
  "database (addEntries es st) = database st"
  "executed (addEntries es st) = executed st"
  "submitted (addEntries es st) = submitted st"
  by (induction es st rule: addEntries.induct; simp)+

lemma runSQL_frame [simp]:
  "buffer (runSQL E sql st) = buffer st"
  "currentLine (runSQL E sql st) = currentLine st"
  "commandHistory (runSQL E sql st) = commandHistory st"
  "historyIndex (runSQL E sql st) = historyIndex st"
  "aiEnabled (runSQL E sql st) = aiEnabled st"
  "learningMode (runSQL E sql st) = learningMode st"
  "pendingDangerousCommand (runSQL E sql st) = pendingDangerousCommand st"
  "isMultiLine (runSQL E sql st) = isMultiLine st"
  "submitted (runSQL E sql st) = submitted st"
  "executed (runSQL E sql st) = executed st @ [sql]"
  "database (runSQL E sql st) = snd (executeSQL E (database st) sql)"
  by (simp_all add: runSQL_def Let_def split: prod.split)

lemma processSQL_frame [simp]:
  "buffer (processSQL E sql st) = buffer st"
  "currentLine (processSQL E sql st) = currentLine st"
  "commandHistory (processSQL E sql st) = commandHistory st"
  "historyIndex (processSQL E sql st) = historyIndex st"
  "aiEnabled (processSQL E sql st) = aiEnabled st"
  "learningMode (processSQL E sql st) = learningMode st"
  "isMultiLine (processSQL E sql st) = isMultiLine st"
  "submitted (processSQL E sql st) = submitted st"
  by (auto simp add: processSQL_def Let_def split: prod.split option.split)

lemma describeTable_frame [simp]:
  "buffer (stateOf (describeTable sql st)) = buffer st"
  "currentLine (stateOf (describeTable sql st)) = currentLine st"
  "commandHistory (stateOf (describeTable sql st)) = commandHistory st"
  "historyIndex (stateOf (describeTable sql st)) = historyIndex st"
  "aiEnabled (stateOf (describeTable sql st)) = aiEnabled st"
  "learningMode (stateOf (describeTable sql st)) = learningMode st"
  "pendingDangerousCommand (stateOf (describeTable sql st)) = pendingDangerousCommand st"
  "isMultiLine (stateOf (describeTable sql st)) = isMultiLine st"
  "submitted (stateOf (describeTable sql st)) = submitted st"
  "executed (stateOf (describeTable sql st)) = executed st"
  "database (stateOf (describeTable sql st)) = database st"
  by (simp_all add: describeTable_def split: option.split)

lemma executeCommand_recall:
  "commandHistory (stateOf (executeCommand E s st)) =
     take 50 (s # filter (\<lambda>c. c \<noteq> s) (commandHistory st))"
  "historyIndex (stateOf (executeCommand E s st)) = - 1"
  "submitted (stateOf (executeCommand E s st)) = submitted st @ [s]"
  "buffer (stateOf (executeCommand E s st)) = buffer st"
  "currentLine (stateOf (executeCommand E s st)) = currentLine st"
  "isMultiLine (stateOf (executeCommand E s st)) = isMultiLine st"
  by (simp_all add: executeCommand_def addToCommandHistory_def Let_def split: option.split list.split)

subsection \<open>The recall list\<close>

lemma length_filter_neq_distinct:
  "distinct xs \<Longrightarrow>
     length (filter (\<lambda>c. c \<noteq> s) xs) = length xs - (if s \<in> set xs then 1 else 0)"
proof (induction xs)
  case Nil
  then show ?case by simp
next
  case (Cons a xs)
  then show ?case
    using length_pos_if_in_set [of s xs] by (cases "a = s") auto
qed

lemma take_filter_take:
  assumes "distinct L"
  shows "take k (filter (\<lambda>c. c \<noteq> s) (take (Suc k) L)) = take k (filter (\<lambda>c. c \<noteq> s) L)"
proof (cases "Suc k \<le> length L")
  case True
  have split: "filter (\<lambda>c. c \<noteq> s) L =
      filter (\<lambda>c. c \<noteq> s) (take (Suc k) L) @ filter (\<lambda>c. c \<noteq> s) (drop (Suc k) L)"
    by (metis append_take_drop_id filter_append)
  have "distinct (take (Suc k) L)"
    using assms by simp
  then have "length (filter (\<lambda>c. c \<noteq> s) (take (Suc k) L)) =
      length (take (Suc k) L) - (if s \<in> set (take (Suc k) L) then 1 else 0)"
    by (rule length_filter_neq_distinct)
  with True have "k \<le> length (filter (\<lambda>c. c \<noteq> s) (take (Suc k) L))"
    by simp
  then have "take k (filter (\<lambda>c. c \<noteq> s) (take (Suc k) L) @ filter (\<lambda>c. c \<noteq> s) (drop (Suc k) L)) =
      take k (filter (\<lambda>c. c \<noteq> s) (take (Suc k) L))"
    by simp
  then show ?thesis
    by (metis split)
next
  case False
  then show ?thesis by simp
qed

lemma recall_update:
  assumes "distinct L"
  shows "take 50 (s # filter (\<lambda>c. c \<noteq> s) (take 50 L)) = take 50 (s # filter (\<lambda>c. c \<noteq> s) L)"
proof -
  have "take 49 (filter (\<lambda>c. c \<noteq> s) (take (Suc 49) L)) = take 49 (filter (\<lambda>c. c \<noteq> s) L)"
    using assms by (rule take_filter_take)
  then show ?thesis by simp
qed

lemma remdups_snoc:
  "remdups (xs @ [s]) = filter (\<lambda>c. c \<noteq> s) (remdups xs) @ [s]"
  by (induction xs) auto

lemma rev_remdups_snoc:
  "rev (remdups (xs @ [s])) = s # filter (\<lambda>c. c \<noteq> s) (rev (remdups xs))"
  by (simp add: remdups_snoc rev_filter)

lemma executeCommand_recallInv:
  assumes "take 50 (rev (remdups (submitted st))) = commandHistory st"
  shows "recallInv (stateOf (executeCommand E s st))"
proof -
  have "take 50 (s # filter (\<lambda>c. c \<noteq> s) (take 50 (rev (remdups (submitted st))))) =
        take 50 (s # filter (\<lambda>c. c \<noteq> s) (rev (remdups (submitted st))))"
    by (rule recall_update) simp
  then show ?thesis
    using assms [symmetric] by (simp add: recallInv_def executeCommand_recall rev_remdups_snoc)
qed

lemma echoLines_frame [simp]:
  "buffer (echoLines i ls st) = buffer st"
  "currentLine (echoLines i ls st) = currentLine st"
  "commandHistory (echoLines i ls st) = commandHistory st"
  "historyIndex (echoLines i ls st) = historyIndex st"
  "aiEnabled (echoLines i ls st) = aiEnabled st"
  "learningMode (echoLines i ls st) = learningMode st"
  "pendingDangerousCommand (echoLines i ls st) = pendingDangerousCommand st"
  "isMultiLine (echoLines i ls st) = isMultiLine st"
  "database (echoLines i ls st) = database st"
  "executed (echoLines i ls st) = executed st"
  "submitted (echoLines i ls st) = submitted st"
  by (induction i ls st rule: echoLines.induct; simp)+

lemma finishSubmit_recall [simp]:
  "commandHistory (stateOf (finishSubmit r)) = commandHistory (stateOf r)"
  "historyIndex (stateOf (finishSubmit r)) = historyIndex (stateOf r)"
  "submitted (stateOf (finishSubmit r)) = submitted (stateOf r)"
  by (cases r; simp add: finishSubmit_def)+

lemma finishSubmit_recallInv [simp]:
  "recallInv (stateOf (finishSubmit r)) = recallInv (stateOf r)"
  by (simp add: recallInv_def)

lemma recallInv_frame [simp]:
  "recallInv (st\<lparr>history := h\<rparr>) = recallInv st"
  "recallInv (st\<lparr>buffer := b\<rparr>) = recallInv st"
  "recallInv (st\<lparr>currentLine := l\<rparr>) = recallInv st"
  "recallInv (st\<lparr>isMultiLine := m\<rparr>) = recallInv st"
  "recallInv (st\<lparr>aiEnabled := a\<rparr>) = recallInv st"
  "recallInv (st\<lparr>learningMode := a\<rparr>) = recallInv st"
  "recallInv (addEntry t c tbl st) = recallInv st"
  "recallInv (echoLines i ls st) = recallInv st"
  by (simp_all add: recallInv_def)

lemma recallInv_arrows:
  "recallInv st \<Longrightarrow> historyIndex st < int (length (commandHistory st)) - 1 \<Longrightarrow>
     recallInv (st\<lparr>historyIndex := historyIndex st + 1\<rparr>)"
  "recallInv st \<Longrightarrow> 0 < historyIndex st \<Longrightarrow>
     recallInv (st\<lparr>historyIndex := historyIndex st - 1\<rparr>)"
  "recallInv st \<Longrightarrow> recallInv (st\<lparr>historyIndex := - 1\<rparr>)"
  by (simp_all add: recallInv_def)

lemma handleKeyDown_recallInv:
  assumes "recallInv st"
  shows "recallInv (stateOf (handleKeyDown E e st))"
proof -
  have base: "take 50 (rev (remdups (submitted st))) = commandHistory st"
    using assms by (simp add: recallInv_def)
  show ?thesis
    using assms base
    by (simp add: handleKeyDown_def Let_def executeCommand_recallInv recallInv_arrows)
qed

lemma step_recallInv:
  "recallInv st \<Longrightarrow> recallInv (step E st a)"
  by (cases a) (simp_all add: handleKeyDown_recallInv split: option.split)

lemma run_recallInv:
  "recallInv st \<Longrightarrow> recallInv (run E acts st)"
  unfolding run_def by (induction acts arbitrary: st) (simp_all add: step_recallInv)

lemma init_recallInv: "recallInv (init d)"
  by (simp add: recallInv_def init_def)

subsection \<open>Statements and built-in commands\<close>

lemma executeCommand_statement:
  assumes "toLowerCase (trim s) \<notin> set builtinWords"
    and "\<not> isDescribe s"
    and "toLowerCase (trim s) \<notin> set answerWords \<or> pendingDangerousCommand st = None"
  shows "executeCommand E s st = Done (processSQL E (trim s) (addToCommandHistory s st))"
  using assms
  by (auto simp add: executeCommand_def Let_def addToCommandHistory_def builtinWords_def answerWords_def
      isDescribe_def split: option.split list.split)

lemma executeCommand_Done:
  assumes "\<not> isDescribe s"
  shows "executeCommand E s st = Done (stateOf (executeCommand E s st))"
  using assms
  by (simp add: executeCommand_def Let_def isDescribe_def split: option.split list.split)

lemma search_Bol: "0 < p \<Longrightarrow> search (Bol # re) p t = None"
  by (induction t arbitrary: p) simp_all

lemma regexTest_Bol:
  assumes "regexTest (Bol # re) t"
  shows "matchSeq re (0, t, []) \<noteq> []"
proof (cases t)
  case Nil
  with assms show ?thesis
    by (auto simp add: regexTest_def split: list.splits)
next
  case (Cons x xs)
  have "search (Bol # re) (Suc 0) xs = None"
    by (rule search_Bol) simp
  with assms Cons show ?thesis
    by (auto simp add: regexTest_def split: list.splits)
qed

lemma matchSeq_lit:
  "matchSeq (lit s @ re) (p, t, cs) \<noteq> [] \<Longrightarrow>
     length s \<le> length t \<and> map canonicalize (take (length s) t) = map canonicalize s"
proof (induction s arbitrary: p t)
  case Nil
  then show ?case by (simp add: lit_def)
next
  case (Cons c s)
  from Cons.prems obtain x xs where t: "t = x # xs"
    by (cases t) (auto simp add: lit_def)
  from Cons.prems t have cx: "canonicalize x = canonicalize c"
    by (auto simp add: lit_def split: if_splits)
  with Cons.prems t have "matchSeq (lit s @ re) (Suc p, xs, cs) \<noteq> []"
    by (simp add: lit_def)
  then have "length s \<le> length xs \<and> map canonicalize (take (length s) xs) = map canonicalize s"
    by (rule Cons.IH)
  with t cx show ?case by simp
qed

lemma lowerUnit_capital:
  assumes "canonicalize x = c" and "65 \<le> c" and "c \<le> 90"
  shows "lowerUnit x = [c + 32]"
proof -
  have "map_of upperCaseTable x \<noteq> Some c"
    using assms(2,3) by (auto simp add: upperCaseTable_def split: if_splits)
  with assms show ?thesis
    by (auto simp add: canonicalize_def lowerUnit_def split: if_splits option.splits)
qed

subsection \<open>Dangerous statements\<close>

lemma starts_with_keyword:
  assumes "regexTest ([Bol] @ lit kw @ re) t"
  shows "length kw \<le> length t \<and> map canonicalize (take (length kw) t) = map canonicalize kw"
proof -
  from assms have "matchSeq (lit kw @ re) (0, t, []) \<noteq> []"
    using regexTest_Bol [of "lit kw @ re" t] by simp
  then show ?thesis by (rule matchSeq_lit)
qed

lemma canonicalize_capital: "65 \<le> c \<Longrightarrow> c \<le> 90 \<Longrightarrow> canonicalize c = c"
  by (auto simp add: canonicalize_def upperCaseTable_def)

lemma toLowerCase_keyword:
  "length kw \<le> length t \<Longrightarrow> map canonicalize (take (length kw) t) = map canonicalize kw \<Longrightarrow>
   list_all (\<lambda>c. 65 \<le> c \<and> c \<le> 90) kw \<Longrightarrow>
   toLowerCase t = map (\<lambda>c. c + 32) kw @ toLowerCase (drop (length kw) t)"
proof (induction kw arbitrary: t)
  case Nil
  then show ?case by simp
next
  case (Cons c kw)
  from Cons.prems(1) obtain x xs where t: "t = x # xs"
    by (cases t) auto
  from Cons.prems t have "canonicalize x = c"
    by (simp add: canonicalize_capital)
  with Cons.prems(3) have x: "lowerUnit x = [c + 32]"
    by (simp add: lowerUnit_capital)
  from Cons.prems t have "toLowerCase xs = map (\<lambda>c. c + 32) kw @ toLowerCase (drop (length kw) xs)"
    by (intro Cons.IH) simp_all
  with x t show ?case
    by (simp add: toLowerCase_def)
qed

lemma find_SomeD: "find P xs = Some x \<Longrightarrow> P x \<and> x \<in> set xs"
  by (induction xs) (auto split: if_splits)

lemma high_danger_lower:
  assumes "checkDangerousCommand s = Some d" and "level d = High"
  shows "\<exists>r. toLowerCase (trim s) = asc ''drop'' @ r
           \<or> toLowerCase (trim s) = asc ''delete'' @ r
           \<or> toLowerCase (trim s) = asc ''truncate'' @ r"
proof -
  from assms(1) have d: "regexTest (pattern d) (trim s)" "d \<in> set dangerousCommands"
    using find_SomeD [of "\<lambda>dangerous. regexTest (pattern dangerous) (trim s)" dangerousCommands d]
    by (simp_all add: checkDangerousCommand_def)
  from d(2) assms(2) consider
      (dropT) re where "pattern d = [Bol] @ lit (asc ''DROP'') @ re"
    | (del) re where "pattern d = [Bol] @ lit (asc ''DELETE'') @ re"
    | (trunc) re where "pattern d = [Bol] @ lit (asc ''TRUNCATE'') @ re"
    by (auto simp add: dangerousCommands_def)
  then show ?thesis
  proof cases
    case dropT
    with d(1) have "length (asc ''DROP'') \<le> length (trim s) \<and>
        map canonicalize (take (length (asc ''DROP'')) (trim s)) = map canonicalize (asc ''DROP'')"
      using starts_with_keyword [of "asc ''DROP''" re "trim s"] by simp
    then have "toLowerCase (trim s) =
        map (\<lambda>c. c + 32) (asc ''DROP'') @ toLowerCase (drop (length (asc ''DROP'')) (trim s))"
      by (intro toLowerCase_keyword) (simp_all add: asc_def)
    then show ?thesis by (auto simp add: asc_def)
  next
    case del
    with d(1) have "length (asc ''DELETE'') \<le> length (trim s) \<and>
        map canonicalize (take (length (asc ''DELETE'')) (trim s)) = map canonicalize (asc ''DELETE'')"
      using starts_with_keyword [of "asc ''DELETE''" re "trim s"] by simp
    then have "toLowerCase (trim s) =
        map (\<lambda>c. c + 32) (asc ''DELETE'') @ toLowerCase (drop (length (asc ''DELETE'')) (trim s))"
      by (intro toLowerCase_keyword) (simp_all add: asc_def)
    then show ?thesis by (auto simp add: asc_def)
  next
    case trunc
    with d(1) have "length (asc ''TRUNCATE'') \<le> length (trim s) \<and>
        map canonicalize (take (length (asc ''TRUNCATE'')) (trim s)) = map canonicalize (asc ''TRUNCATE'')"
      using starts_with_keyword [of "asc ''TRUNCATE''" re "trim s"] by simp
    then have "toLowerCase (trim s) =
        map (\<lambda>c. c + 32) (asc ''TRUNCATE'') @ toLowerCase (drop (length (asc ''TRUNCATE'')) (trim s))"
      by (intro toLowerCase_keyword) (simp_all add: asc_def)
    then show ?thesis by (auto simp add: asc_def)
  qed
qed

lemma high_danger_is_statement:
  assumes "checkDangerousCommand s = Some d" and "level d = High"
  shows "toLowerCase (trim s) \<notin> set builtinWords \<and> \<not> isDescribe s
         \<and> toLowerCase (trim s) \<notin> set answerWords"
proof -
  from assms obtain r where
    "toLowerCase (trim s) = asc ''drop'' @ r \<or> toLowerCase (trim s) = asc ''delete'' @ r
     \<or> toLowerCase (trim s) = asc ''truncate'' @ r"
    using high_danger_lower by blast
  then show ?thesis
    by (auto simp add: builtinWords_def answerWords_def isDescribe_def startsWith_def asc_def)
qed

lemma addEntries_history:
  "history (addEntries es st) =
     history st @
     map (\<lambda>(i, t, c, tbl). \<lparr>entry_id = i, entry_type = t, content = c, entry_table = tbl\<rparr>)
       (enumerate (idCounter st) es)"
  by (induction es st rule: addEntries.induct) simp_all

lemma runEntries_no_warning:
  "list_all (\<lambda>(t, c, tbl). t \<noteq> TWarning) (runEntries E sql ai learn r)"
  by (simp add: runEntries_def split: option.split list.split)

lemma runSQL_history:
  "\<exists>new. history (runSQL E sql st) = history st @ new
         \<and> list_all (\<lambda>e. entry_type e \<noteq> TWarning) new"
proof -
  obtain r d where r: "executeSQL E (database st) sql = (r, d)"
    by (cases "executeSQL E (database st) sql")
  have "list_all (\<lambda>(t, c, tbl). t \<noteq> TWarning)
          (runEntries E sql (aiEnabled st) (learningMode st) r)"
    by (rule runEntries_no_warning)
  then have "list_all (\<lambda>e. entry_type e \<noteq> TWarning)
      (map (\<lambda>(i, t, c, tbl). \<lparr>entry_id = i, entry_type = t, content = c, entry_table = tbl\<rparr>)
         (enumerate (idCounter st) (runEntries E sql (aiEnabled st) (learningMode st) r)))"
    by (auto simp add: list_all_iff enumerate_eq_zip dest!: set_zip_rightD)
  then show ?thesis
    using r by (simp add: runSQL_def addEntries_history)
qed

lemma addToCommandHistory_frame [simp]:
  "aiEnabled (addToCommandHistory s st) = aiEnabled st"
  "pendingDangerousCommand (addToCommandHistory s st) = pendingDangerousCommand st"
  "executed (addToCommandHistory s st) = executed st"
  "database (addToCommandHistory s st) = database st"
  "history (addToCommandHistory s st) = history st"
  by (simp_all add: addToCommandHistory_def)

lemma entries_of_enumerate:
  "map (\<lambda>e. (entry_type e, content e, entry_table e))
     (map (\<lambda>(i, t, c, tbl). \<lparr>entry_id = i, entry_type = t, content = c, entry_table = tbl\<rparr>)
        (enumerate n es)) = es"
  by (induction es arbitrary: n) (simp_all add: split_beta)

lemma runSQL_entries:
  "\<exists>new. history (runSQL E sql st) = history st @ new
     \<and> map (\<lambda>e. (entry_type e, content e, entry_table e)) new =
         runEntries E sql (aiEnabled st) (learningMode st) (fst (executeSQL E (database st) sql))
     \<and> list_all (\<lambda>e. entry_type e \<noteq> TWarning) new"
proof -
  obtain r d where r: "executeSQL E (database st) sql = (r, d)"
    by (cases "executeSQL E (database st) sql")
  let ?es = "runEntries E sql (aiEnabled st) (learningMode st) r"
  let ?new = "map (\<lambda>(i, t, c, tbl). \<lparr>entry_id = i, entry_type = t, content = c, entry_table = tbl\<rparr>)
                (enumerate (idCounter st) ?es)"
  have h: "history (runSQL E sql st) = history st @ ?new"
    using r by (simp add: runSQL_def addEntries_history)
  have m: "map (\<lambda>e. (entry_type e, content e, entry_table e)) ?new =
         runEntries E sql (aiEnabled st) (learningMode st) (fst (executeSQL E (database st) sql))"
    unfolding entries_of_enumerate by (simp add: r)
  have "list_all (\<lambda>(t, c, tbl). t \<noteq> TWarning) ?es"
    by (rule runEntries_no_warning)
  then have w: "list_all (\<lambda>e. entry_type e \<noteq> TWarning) ?new"
    by (auto simp add: list_all_iff enumerate_eq_zip dest!: set_zip_rightD)
  show ?thesis
    by (rule exI [of _ ?new]) (intro conjI h m w)
qed

lemma runEntries_ai_off:
  "runEntries E sql False learn r \<noteq> []"
  by (simp add: runEntries_def split: option.split list.split)

text \<open>
  Claim C3. With the AI assistance off, a submitted statement that a danger rule of
  level \<open>high\<close> matches is passed to \<open>executeSQL\<close> at once (trimmed): the handler ends
  normally, the engine is applied to that statement and the session goes on with the
  store the engine returns, the statement is the only one executed, the transcript
  gains the entries \<open>runSQL\<close> writes for the result of the engine (at least one, none of
  them a warning), and the pending confirmation is left as it was (none is asked for).
\<close>

theorem ai_off_runs_dangerous_statement:
  assumes "\<not> aiEnabled st" and "checkDangerousCommand sql = Some d" and "level d = High"
  shows "\<exists>st' new. executeCommand E sql st = Done st'
           \<and> executed st' = executed st @ [trim sql]
           \<and> database st' = snd (executeSQL E (database st) (trim sql))
           \<and> history st' = history st @ new \<and> new \<noteq> []
           \<and> map (\<lambda>e. (entry_type e, content e, entry_table e)) new =
               runEntries E (trim sql) False (learningMode st)
                 (fst (executeSQL E (database st) (trim sql)))
           \<and> list_all (\<lambda>e. entry_type e \<noteq> TWarning) new
           \<and> pendingDangerousCommand st' = pendingDangerousCommand st"
proof -
  let ?st = "addToCommandHistory sql st"
  have f: "aiEnabled ?st = False" "learningMode ?st = learningMode st" "database ?st = database st"
    "history ?st = history st"
    using assms(1) by (simp_all add: addToCommandHistory_def)
  have e: "executeCommand E sql st = Done (processSQL E (trim sql) ?st)"
    using high_danger_is_statement [OF assms(2,3)] by (intro executeCommand_statement) simp_all
  have p: "processSQL E (trim sql) ?st = runSQL E (trim sql) ?st"
    using assms(1) by (simp add: processSQL_def)
  obtain new where new: "history (runSQL E (trim sql) ?st) = history ?st @ new"
      "map (\<lambda>e. (entry_type e, content e, entry_table e)) new =
         runEntries E (trim sql) (aiEnabled ?st) (learningMode ?st)
           (fst (executeSQL E (database ?st) (trim sql)))"
      "list_all (\<lambda>e. entry_type e \<noteq> TWarning) new"
    using runSQL_entries [of E "trim sql" ?st] by blast
  have n: "new \<noteq> []"
    using new(2) runEntries_ai_off [of E "trim sql" "learningMode st"
        "fst (executeSQL E (database st) (trim sql))"]
    unfolding f by auto
  show ?thesis
    using new n unfolding e p f
    by (intro exI [of _ "runSQL E (trim sql) ?st"] exI [of _ new]) simp
qed

subsection \<open>Confirmation of a dangerous statement\<close>

lemma drop_students_eval:
  "trim (asc ''DROP TABLE students;'') = asc ''DROP TABLE students;''"
  "convertVietnameseToSQL (asc ''DROP TABLE students;'') = None"
  "fixSQLTypos (asc ''DROP TABLE students;'') =
     \<lparr>fixed = asc ''DROP TABLE students;'', corrections = []\<rparr>"
  "map_option level (checkDangerousCommand (asc ''DROP TABLE students;'')) = Some High"
  by (simp_all add: convertVietnameseToSQL_def vietnameseToSQL_def fixSQLTypos_def
      sqlCorrections_def checkDangerousCommand_def dangerousCommands_def eval_simps)

lemma drop_students_is_statement:
  "toLowerCase (trim (asc ''DROP TABLE students;'')) \<notin> set builtinWords
   \<and> \<not> isDescribe (asc ''DROP TABLE students;'')
   \<and> toLowerCase (trim (asc ''DROP TABLE students;'')) \<notin> set answerWords"
  by (simp add: builtinWords_def answerWords_def isDescribe_def eval_simps)

lemma processSQL_drop_students:
  assumes "aiEnabled st"
  shows "\<exists>w. processSQL E (asc ''DROP TABLE students;'') st =
           addEntry TWarning confirmText None
             ((addEntry TWarning w None st)
                \<lparr>pendingDangerousCommand := Some (asc ''DROP TABLE students;'')\<rparr>)"
proof -
  obtain d where d: "checkDangerousCommand (asc ''DROP TABLE students;'') = Some d" "level d = High"
    using drop_students_eval(4) by (cases "checkDangerousCommand (asc ''DROP TABLE students;'')") auto
  have "processSQL E (asc ''DROP TABLE students;'') st =
           addEntry TWarning confirmText None
             ((addEntry TWarning (warning d) None st)
                \<lparr>pendingDangerousCommand := Some (asc ''DROP TABLE students;'')\<rparr>)"
    using assms d by (simp add: processSQL_def drop_students_eval(2,3) Let_def)
  then show ?thesis ..
qed

lemma executeCommand_drop_students:
  assumes "aiEnabled st"
  shows "\<exists>w. executeCommand E (asc ''DROP TABLE students;'') st =
           Done (addEntry TWarning confirmText None
             ((addEntry TWarning w None (addToCommandHistory (asc ''DROP TABLE students;'') st))
                \<lparr>pendingDangerousCommand := Some (asc ''DROP TABLE students;'')\<rparr>))"
proof -
  have "executeCommand E (asc ''DROP TABLE students;'') st =
      Done (processSQL E (trim (asc ''DROP TABLE students;''))
              (addToCommandHistory (asc ''DROP TABLE students;'') st))"
    using drop_students_is_statement by (intro executeCommand_statement) simp_all
  moreover have "aiEnabled (addToCommandHistory (asc ''DROP TABLE students;'') st)"
    using assms by simp
  ultimately show ?thesis
    using processSQL_drop_students [of "addToCommandHistory (asc ''DROP TABLE students;'') st" E]
    by (simp add: drop_students_eval(1))
qed

lemma answer_not_builtin:
  assumes "r \<in> set answerWords"
  shows "toLowerCase (trim r) = r \<and> r \<notin> set builtinWords \<and> \<not> isDescribe r"
  using assms by (auto simp add: answerWords_def builtinWords_def isDescribe_def eval_simps)

lemma executeCommand_yes:
  assumes "pendingDangerousCommand st = Some (c # cs)" and "r = asc ''yes'' \<or> r = asc ''y''"
  shows "executeCommand E r st =
           Done (runSQL E (c # cs) ((addToCommandHistory r st)\<lparr>pendingDangerousCommand := None\<rparr>))"
proof -
  from assms(2) have "r \<in> set answerWords"
    by (auto simp add: answerWords_def)
  then have r: "toLowerCase (trim r) = r" "r \<notin> set builtinWords" "\<not> isDescribe r"
    using answer_not_builtin by blast+
  from r(2) have nb: "r \<noteq> asc ''help''" "r \<noteq> asc ''clear''" "r \<noteq> asc ''reset''" "r \<noteq> asc ''tables''"
      "r \<noteq> asc ''ai on''" "r \<noteq> asc ''ai off''" "r \<noteq> asc ''learn on''" "r \<noteq> asc ''learn off''"
    by (simp_all add: builtinWords_def)
  from r(3) have nd: "\<not> startsWith r (asc ''desc '')" "\<not> startsWith r (asc ''describe '')"
    by (simp_all add: isDescribe_def r(1))
  show ?thesis
    using assms nb nd by (simp add: executeCommand_def Let_def r(1))
qed

lemma executeCommand_no:
  assumes "pendingDangerousCommand st = Some (c # cs)" and "r = asc ''no'' \<or> r = asc ''n''"
  shows "executeCommand E r st =
           Done (addEntry TInfo cancelText None
                   ((addToCommandHistory r st)\<lparr>pendingDangerousCommand := None\<rparr>))"
proof -
  from assms(2) have "r \<in> set answerWords"
    by (auto simp add: answerWords_def)
  then have r: "toLowerCase (trim r) = r" "r \<notin> set builtinWords" "\<not> isDescribe r"
    using answer_not_builtin by blast+
  from r(2) have nb: "r \<noteq> asc ''help''" "r \<noteq> asc ''clear''" "r \<noteq> asc ''reset''" "r \<noteq> asc ''tables''"
      "r \<noteq> asc ''ai on''" "r \<noteq> asc ''ai off''" "r \<noteq> asc ''learn on''" "r \<noteq> asc ''learn off''"
    by (simp_all add: builtinWords_def)
  from r(3) have nd: "\<not> startsWith r (asc ''desc '')" "\<not> startsWith r (asc ''describe '')"
    by (simp_all add: isDescribe_def r(1))
  have ny: "r \<noteq> asc ''yes''" "r \<noteq> asc ''y''"
    using assms(2) by (auto simp add: asc_def)
  show ?thesis
    using assms nb nd ny by (simp add: executeCommand_def Let_def r(1))
qed

text \<open>
  Claim C1. With the AI assistance on (as it is when the console starts), submitting
  \<open>DROP TABLE students;\<close> does not call \<open>executeSQL\<close>: the handler ends with the statement
  held for confirmation, the list of executed statements and the store as they were.
  A following \<open>yes\<close> or \<open>y\<close> passes exactly the held statement to \<open>executeSQL\<close>. A following
  \<open>no\<close> instead discards the held statement, executes nothing and leaves the store as it
  was before, so that any later query is answered from the data before the drop.
\<close>

theorem drop_table_waits_for_confirmation:
  assumes "aiEnabled st" and "held = stateOf (executeCommand E (asc ''DROP TABLE students;'') st)"
  shows "executeCommand E (asc ''DROP TABLE students;'') st = Done held
       \<and> executed held = executed st \<and> database held = database st
       \<and> pendingDangerousCommand held = Some (asc ''DROP TABLE students;'')
       \<and> executed (stateOf (executeCommand E (asc ''yes'') held)) =
           executed st @ [asc ''DROP TABLE students;'']
       \<and> executed (stateOf (executeCommand E (asc ''y'') held)) =
           executed st @ [asc ''DROP TABLE students;'']
       \<and> executed (stateOf (executeCommand E (asc ''no'') held)) = executed st
       \<and> database (stateOf (executeCommand E (asc ''no'') held)) = database st
       \<and> pendingDangerousCommand (stateOf (executeCommand E (asc ''no'') held)) = None
       \<and> executeSQL E (database (stateOf (executeCommand E (asc ''no'') held))) q =
           executeSQL E (database st) q"
proof -
  obtain w where w: "executeCommand E (asc ''DROP TABLE students;'') st =
      Done (addEntry TWarning confirmText None
        ((addEntry TWarning w None (addToCommandHistory (asc ''DROP TABLE students;'') st))
           \<lparr>pendingDangerousCommand := Some (asc ''DROP TABLE students;'')\<rparr>))"
    using executeCommand_drop_students [OF assms(1)] by blast
  then have held: "held = addEntry TWarning confirmText None
        ((addEntry TWarning w None (addToCommandHistory (asc ''DROP TABLE students;'') st))
           \<lparr>pendingDangerousCommand := Some (asc ''DROP TABLE students;'')\<rparr>)"
    using assms(2) by simp
  have d: "asc ''DROP TABLE students;'' = 68 # tl (asc ''DROP TABLE students;'')"
    by (simp add: asc_def)
  have p: "pendingDangerousCommand held = Some (68 # tl (asc ''DROP TABLE students;''))"
    using d by (simp add: held)
  have frame: "executed held = executed st" "database held = database st"
    "pendingDangerousCommand held = Some (asc ''DROP TABLE students;'')"
    by (simp_all add: held)
  have yes: "executed (stateOf (executeCommand E (asc ''yes'') held)) =
           executed st @ [asc ''DROP TABLE students;'']"
    using d by (simp add: executeCommand_yes [OF p] frame)
  have y: "executed (stateOf (executeCommand E (asc ''y'') held)) =
           executed st @ [asc ''DROP TABLE students;'']"
    using d by (simp add: executeCommand_yes [OF p] frame)
  have no: "executed (stateOf (executeCommand E (asc ''no'') held)) = executed st"
    "database (stateOf (executeCommand E (asc ''no'') held)) = database st"
    "pendingDangerousCommand (stateOf (executeCommand E (asc ''no'') held)) = None"
    by (simp_all add: executeCommand_no [OF p] frame)
  show ?thesis
    using w held frame yes y no by simp
qed

theorem drop_table_waits_for_confirmation_witness:
  "aiEnabled demoInit
   \<and> executed (stateOf (executeCommand demoEnv (asc ''DROP TABLE students;'') demoInit)) = []
   \<and> executed (stateOf (executeCommand demoEnv (asc ''yes'')
        (stateOf (executeCommand demoEnv (asc ''DROP TABLE students;'') demoInit)))) =
       [asc ''DROP TABLE students;'']
   \<and> rows (fst (executeSQL demoEnv
        (database (stateOf (executeCommand demoEnv (asc ''no'')
           (stateOf (executeCommand demoEnv (asc ''DROP TABLE students;'') demoInit)))))
        (asc ''SELECT * FROM students;''))) =
       [[CNum 1, CStr (asc ''Ann'')], [CNum 2, CNull]]"
proof -
  have a: "aiEnabled demoInit"
    by (simp add: demoInit_def init_def)
  have sel: "rows (fst (executeSQL demoEnv (database demoInit) (asc ''SELECT * FROM students;''))) =
       [[CNum 1, CStr (asc ''Ann'')], [CNum 2, CNull]]"
    by (simp add: demoEnv_def demoExecute_def demoInit_def init_def demoResult_def asc_def)
  have e: "executed demoInit = []"
    by (simp add: demoInit_def init_def)
  show ?thesis
    using drop_table_waits_for_confirmation [OF a refl, of demoEnv "asc ''SELECT * FROM students;''"]
      a sel e
    by simp
qed

subsection \<open>A reply that is no answer\<close>

lemma processSQL_unfold:
  "processSQL E s st =
     (if aiEnabled st then
        (case checkDangerousCommand (pipelineSQL s) of
           None \<Rightarrow> runSQL E (pipelineSQL s) (addEntries (pipelineNotes s) st)
         | Some d \<Rightarrow>
             if level d = High
             then addEntry TWarning confirmText None
                    ((addEntry TWarning (warning d) None (addEntries (pipelineNotes s) st))
                       \<lparr>pendingDangerousCommand := Some (pipelineSQL s)\<rparr>)
             else runSQL E (pipelineSQL s)
                    (addEntry TWarning (warning d) None (addEntries (pipelineNotes s) st)))
      else runSQL E s st)"
  by (simp add: processSQL_def pipelineSQL_def pipelineNotes_def Let_def split: option.split)


lemma pending_commutes:
  "st\<lparr>pendingDangerousCommand := x, executed := e\<rparr> =
     st\<lparr>executed := e, pendingDangerousCommand := x\<rparr>"
  "st\<lparr>pendingDangerousCommand := x, history := h\<rparr> =
     st\<lparr>history := h, pendingDangerousCommand := x\<rparr>"
  "st\<lparr>pendingDangerousCommand := x, database := d\<rparr> =
     st\<lparr>database := d, pendingDangerousCommand := x\<rparr>"
  "st\<lparr>pendingDangerousCommand := x, aiEnabled := a\<rparr> =
     st\<lparr>aiEnabled := a, pendingDangerousCommand := x\<rparr>"
  "st\<lparr>pendingDangerousCommand := x, learningMode := a\<rparr> =
     st\<lparr>learningMode := a, pendingDangerousCommand := x\<rparr>"
  by (cases st; simp)+

lemma addEntry_pending:
  "addEntry t c tbl (st\<lparr>pendingDangerousCommand := x\<rparr>) =
     (addEntry t c tbl st)\<lparr>pendingDangerousCommand := x\<rparr>"
  by (cases st) (simp add: addEntry_def)

lemma addEntries_pending:
  "addEntries es (st\<lparr>pendingDangerousCommand := x\<rparr>) =
     (addEntries es st)\<lparr>pendingDangerousCommand := x\<rparr>"
  by (induction es st rule: addEntries.induct) (simp_all add: addEntry_pending)

lemma runSQL_pending:
  "runSQL E sql (st\<lparr>pendingDangerousCommand := x\<rparr>) =
     (runSQL E sql st)\<lparr>pendingDangerousCommand := x\<rparr>"
  by (simp add: runSQL_def Let_def addEntries_pending [symmetric] pending_commutes
      split: prod.split)

lemma addToCommandHistory_pending:
  "addToCommandHistory s (st\<lparr>pendingDangerousCommand := x\<rparr>) =
     (addToCommandHistory s st)\<lparr>pendingDangerousCommand := x\<rparr>"
  by (cases st) (simp add: addToCommandHistory_def)

lemma describeTable_pending:
  "describeTable s (st\<lparr>pendingDangerousCommand := x\<rparr>) =
     mapOutcome (\<lambda>s'. s'\<lparr>pendingDangerousCommand := x\<rparr>) (describeTable s st)"
  by (simp add: describeTable_def addEntry_pending split: option.split)

lemma stillPending_idle:
  "pendingDangerousCommand st = Some cmd \<Longrightarrow>
     stillPending cmd (st\<lparr>pendingDangerousCommand := None\<rparr>) = st"
  by (cases st) (simp add: stillPending_def)

lemma stillPending_held:
  "stillPending cmd (st\<lparr>pendingDangerousCommand := Some c\<rparr>) = st\<lparr>pendingDangerousCommand := Some c\<rparr>"
  by (simp add: stillPending_def)

lemma processSQL_pending:
  assumes "pendingDangerousCommand st = Some cmd"
  shows "processSQL E sql st =
           stillPending cmd (processSQL E sql (st\<lparr>pendingDangerousCommand := None\<rparr>))"
  using assms
  by (simp add: processSQL_unfold addEntry_pending addEntries_pending runSQL_pending
      stillPending_idle stillPending_held split: option.split)

lemma executeCommand_pending:
  assumes "pendingDangerousCommand st = Some cmd" and "toLowerCase (trim r) \<notin> set answerWords"
  shows "executeCommand E r st =
           mapOutcome (stillPending cmd)
             (executeCommand E r (st\<lparr>pendingDangerousCommand := None\<rparr>))"
proof -
  have p: "pendingDangerousCommand (addToCommandHistory r st) = Some cmd"
    using assms(1) by simp
  have idle: "stillPending cmd ((addToCommandHistory r st)\<lparr>pendingDangerousCommand := None\<rparr>) =
      addToCommandHistory r st"
    using p by (rule stillPending_idle)
  have idle': "\<And>t c tbl. stillPending cmd
      ((addEntry t c tbl (addToCommandHistory r st))\<lparr>pendingDangerousCommand := None\<rparr>) =
      addEntry t c tbl (addToCommandHistory r st)"
    using p by (intro stillPending_idle) simp
  have proc: "processSQL E (trim r) (addToCommandHistory r st) =
      stillPending cmd (processSQL E (trim r)
        ((addToCommandHistory r st)\<lparr>pendingDangerousCommand := None\<rparr>))"
    using p by (rule processSQL_pending)
  have desc: "describeTable (trim r) (addToCommandHistory r st) =
      mapOutcome (stillPending cmd)
        (describeTable (trim r) ((addToCommandHistory r st)\<lparr>pendingDangerousCommand := None\<rparr>))"
    using p
    by (simp add: describeTable_def addEntry_pending stillPending_idle split: option.split)
  show ?thesis
    using assms(2) p
    apply (simp only: executeCommand_def Let_def addToCommandHistory_pending)
    apply (simp add: answerWords_def proc [symmetric] desc [symmetric] addEntry_pending
        pending_commutes stillPending_idle split: list.split)
    done
qed

text \<open>
  Claim C2, amended. While a statement is awaiting confirmation, a submitted line that is
  neither \<open>yes\<close>/\<open>y\<close> nor \<open>no\<close>/\<open>n\<close> is not read as an answer and nothing asks again: it
  is dispatched exactly as it would be with nothing pending (a built-in command is
  carried out, anything else goes through the pipeline and, unless held itself, to
  \<open>executeSQL\<close>). The held statement is not passed to the engine on account of the reply,
  and a statement is still pending afterwards: the held one, or the reply itself when it
  was held in turn.
\<close>

theorem reply_while_pending:
  assumes "pendingDangerousCommand st = Some cmd" and "toLowerCase (trim r) \<notin> set answerWords"
  shows "executeCommand E r st =
           mapOutcome (stillPending cmd)
             (executeCommand E r (st\<lparr>pendingDangerousCommand := None\<rparr>))
       \<and> pendingDangerousCommand (stateOf (executeCommand E r st)) \<noteq> None
       \<and> executed (stateOf (executeCommand E r st)) =
           executed (stateOf (executeCommand E r (st\<lparr>pendingDangerousCommand := None\<rparr>)))
       \<and> history (stateOf (executeCommand E r st)) =
           history (stateOf (executeCommand E r (st\<lparr>pendingDangerousCommand := None\<rparr>)))"
proof -
  have eq: "executeCommand E r st =
           mapOutcome (stillPending cmd)
             (executeCommand E r (st\<lparr>pendingDangerousCommand := None\<rparr>))"
    using assms by (rule executeCommand_pending)
  show ?thesis
    unfolding eq
    by (cases "executeCommand E r (st\<lparr>pendingDangerousCommand := None\<rparr>)")
      (simp_all add: stillPending_def split: option.split)
qed

lemma select_students_eval:
  "trim (asc ''SELECT * FROM students;'') = asc ''SELECT * FROM students;''"
  "pipelineSQL (asc ''SELECT * FROM students;'') = asc ''SELECT * FROM students;''"
  "checkDangerousCommand (asc ''SELECT * FROM students;'') = None"
  by (simp_all add: pipelineSQL_def convertVietnameseToSQL_def vietnameseToSQL_def fixSQLTypos_def
      sqlCorrections_def checkDangerousCommand_def dangerousCommands_def eval_simps)

lemma select_students_notes:
  "pipelineNotes (asc ''SELECT * FROM students;'') = []"
  by (simp add: pipelineNotes_def convertVietnameseToSQL_def vietnameseToSQL_def fixSQLTypos_def
      sqlCorrections_def eval_simps)

lemma select_students_is_statement:
  "toLowerCase (trim (asc ''SELECT * FROM students;'')) \<notin> set builtinWords
   \<and> \<not> isDescribe (asc ''SELECT * FROM students;'')
   \<and> toLowerCase (trim (asc ''SELECT * FROM students;'')) \<notin> set answerWords"
  by (simp add: builtinWords_def answerWords_def isDescribe_def eval_simps)

lemma executeCommand_select_students:
  assumes "aiEnabled st"
  shows "executeCommand E (asc ''SELECT * FROM students;'') st =
     Done (runSQL E (asc ''SELECT * FROM students;'')
             (addToCommandHistory (asc ''SELECT * FROM students;'') st))"
proof -
  have "executeCommand E (asc ''SELECT * FROM students;'') st =
      Done (processSQL E (trim (asc ''SELECT * FROM students;''))
              (addToCommandHistory (asc ''SELECT * FROM students;'') st))"
    using select_students_is_statement by (intro executeCommand_statement) simp_all
  then show ?thesis
    using assms
    by (simp add: processSQL_unfold select_students_eval select_students_notes)
qed

lemma demoPending_state:
  "aiEnabled demoPending" "learningMode demoPending"
  "pendingDangerousCommand demoPending = Some (asc ''DROP TABLE students;'')"
  "executed demoPending = []" "database demoPending = [asc ''students'']"
  "map entry_type (history demoPending) = [TWarning, TWarning]"
proof -
  have a: "aiEnabled demoInit"
    by (simp add: demoInit_def init_def)
  obtain w where w: "executeCommand demoEnv (asc ''DROP TABLE students;'') demoInit =
      Done (addEntry TWarning confirmText None
        ((addEntry TWarning w None (addToCommandHistory (asc ''DROP TABLE students;'') demoInit))
           \<lparr>pendingDangerousCommand := Some (asc ''DROP TABLE students;'')\<rparr>))"
    using executeCommand_drop_students [OF a] by blast
  have p: "demoPending = addEntry TWarning confirmText None
        ((addEntry TWarning w None (addToCommandHistory (asc ''DROP TABLE students;'') demoInit))
           \<lparr>pendingDangerousCommand := Some (asc ''DROP TABLE students;'')\<rparr>)"
    unfolding demoPending_def w by simp
  show "aiEnabled demoPending" "learningMode demoPending"
    "pendingDangerousCommand demoPending = Some (asc ''DROP TABLE students;'')"
    "executed demoPending = []" "database demoPending = [asc ''students'']"
    "map entry_type (history demoPending) = [TWarning, TWarning]"
    unfolding p by (simp_all add: addToCommandHistory_def demoInit_def init_def)
qed

lemma entry_types_enumerate:
  "map entry_type
     (map (\<lambda>(i, t, c, tbl). \<lparr>entry_id = i, entry_type = t, content = c, entry_table = tbl\<rparr>)
        (enumerate n es)) = map (\<lambda>(t, c, tbl). t) es"
  by (induction es arbitrary: n) auto

lemma runSQL_entry_types:
  "map entry_type (history (runSQL E sql st)) =
     map entry_type (history st) @
     map (\<lambda>(t, c, tbl). t)
       (runEntries E sql (aiEnabled st) (learningMode st) (fst (executeSQL E (database st) sql)))"
proof -
  obtain r d where r: "executeSQL E (database st) sql = (r, d)"
    by (cases "executeSQL E (database st) sql")
  show ?thesis
    using entry_types_enumerate
      [of "idCounter st" "runEntries E sql (aiEnabled st) (learningMode st) r"]
    by (simp add: runSQL_def addEntries_history r)
qed

lemma demo_select_entries:
  "map (\<lambda>(t, c, tbl). t)
     (runEntries demoEnv (asc ''SELECT * FROM students;'') True True
        (fst (demoExecute [asc ''students''] (asc ''SELECT * FROM students;'')))) = [TResult]"
  by (simp add: runEntries_def demoEnv_def demoExecute_def demoResult_def asc_def)

text \<open>
  Claim C2, as stated, fails: with \<open>DROP TABLE students;\<close> awaiting confirmation, the
  reply \<open>SELECT * FROM students;\<close> is not taken as an answer. It goes through the
  dispatcher and the pipeline to \<open>executeSQL\<close>, its result is added to the transcript,
  and no further prompt is.
\<close>

theorem reply_is_dispatched_while_pending:
  "pendingDangerousCommand demoPending = Some (asc ''DROP TABLE students;'')
   \<and> executed demoPending = []
   \<and> executed (stateOf (executeCommand demoEnv (asc ''SELECT * FROM students;'') demoPending)) =
       [asc ''SELECT * FROM students;'']
   \<and> map entry_type
         (history (stateOf (executeCommand demoEnv (asc ''SELECT * FROM students;'') demoPending))) =
       [TWarning, TWarning, TResult]"
proof -
  have ex: "executeCommand demoEnv (asc ''SELECT * FROM students;'') demoPending =
     Done (runSQL demoEnv (asc ''SELECT * FROM students;'')
             (addToCommandHistory (asc ''SELECT * FROM students;'') demoPending))"
    using demoPending_state(1) by (rule executeCommand_select_students)
  have ev: "executeSQL demoEnv [asc ''students''] (asc ''SELECT * FROM students;'') =
      demoExecute [asc ''students''] (asc ''SELECT * FROM students;'')"
    by (simp add: demoEnv_def)
  have st: "aiEnabled (addToCommandHistory (asc ''SELECT * FROM students;'') demoPending)"
    "learningMode (addToCommandHistory (asc ''SELECT * FROM students;'') demoPending)"
    "database (addToCommandHistory (asc ''SELECT * FROM students;'') demoPending) = [asc ''students'']"
    "history (addToCommandHistory (asc ''SELECT * FROM students;'') demoPending) = history demoPending"
    by (simp_all add: demoPending_state addToCommandHistory_def)
  have "map entry_type (history (runSQL demoEnv (asc ''SELECT * FROM students;'')
             (addToCommandHistory (asc ''SELECT * FROM students;'') demoPending))) =
       [TWarning, TWarning, TResult]"
    by (simp add: runSQL_entry_types st ev demo_select_entries demoPending_state)
  then show ?thesis
    by (simp add: ex demoPending_state)
qed

theorem reply_while_pending_witness:
  "pendingDangerousCommand demoPending = Some (asc ''DROP TABLE students;'')
   \<and> toLowerCase (trim (asc ''SELECT * FROM students;'')) \<notin> set answerWords
   \<and> pendingDangerousCommand
         (stateOf (executeCommand demoEnv (asc ''SELECT * FROM students;'') demoPending)) \<noteq> None
   \<and> executed (stateOf (executeCommand demoEnv (asc ''SELECT * FROM students;'') demoPending)) =
       executed (stateOf (executeCommand demoEnv (asc ''SELECT * FROM students;'')
         (demoPending\<lparr>pendingDangerousCommand := None\<rparr>)))"
proof -
  have a: "toLowerCase (trim (asc ''SELECT * FROM students;'')) \<notin> set answerWords"
    using select_students_is_statement by blast
  show ?thesis
    using reply_while_pending [OF demoPending_state(3) a, of demoEnv] demoPending_state(3) a
    by blast
qed

lemma natText_small:
  "natText 0 = [48]" "natText (Suc 0) = [49]" "natText 2 = [50]"
  by (simp_all add: natText_def numeral_3_eq_3)

theorem ai_off_runs_dangerous_statement_witness:
  "\<not> aiEnabled (demoInit\<lparr>aiEnabled := False\<rparr>)
   \<and> map_option level (checkDangerousCommand (asc ''DROP TABLE students;'')) = Some High
   \<and> (\<exists>st' new.
         executeCommand demoEnv (asc ''DROP TABLE students;'') (demoInit\<lparr>aiEnabled := False\<rparr>) =
           Done st'
         \<and> executed st' = [asc ''DROP TABLE students;'']
         \<and> database st' = []
         \<and> history st' = new \<and> new \<noteq> []
         \<and> map (\<lambda>e. (entry_type e, content e, entry_table e)) new =
             [(TInfo, asc ''Query OK, 0 row(s) affected (1ms)'', None)]
         \<and> list_all (\<lambda>e. entry_type e \<noteq> TWarning) new
         \<and> pendingDangerousCommand st' = None)"
proof -
  obtain d where d: "checkDangerousCommand (asc ''DROP TABLE students;'') = Some d" "level d = High"
    using drop_students_eval(4) by (cases "checkDangerousCommand (asc ''DROP TABLE students;'')") auto
  have a: "\<not> aiEnabled (demoInit\<lparr>aiEnabled := False\<rparr>)"
    by simp
  have s: "executed (demoInit\<lparr>aiEnabled := False\<rparr>) = []"
    "history (demoInit\<lparr>aiEnabled := False\<rparr>) = []"
    "pendingDangerousCommand (demoInit\<lparr>aiEnabled := False\<rparr>) = None"
    "database (demoInit\<lparr>aiEnabled := False\<rparr>) = [asc ''students'']"
    by (simp_all add: demoInit_def init_def)
  have x: "executeSQL demoEnv [asc ''students''] (asc ''DROP TABLE students;'') = (demoResult [] [], [])"
    by (simp add: demoEnv_def demoExecute_def)
  have q: "runEntries demoEnv (asc ''DROP TABLE students;'') False l (demoResult [] []) =
      [(TInfo, asc ''Query OK, 0 row(s) affected (1ms)'', None)]" for l
    by (simp add: runEntries_def demoResult_def demoEnv_def queryOkText_def natText_small asc_def)
  show ?thesis
    using ai_off_runs_dangerous_statement [OF a d, of demoEnv] drop_students_eval(1,4) s
    by (simp add: x q)
qed

subsection \<open>Submitting a line\<close>

lemma submit_line:
  assumes "buffer st = []" and "isCommandComplete line" and "\<not> isDescribe (trim line)"
  shows "buffer (step E (step E st (Change line)) enter) = []
       \<and> currentLine (step E (step E st (Change line)) enter) = []
       \<and> submitted (step E (step E st (Change line)) enter) = submitted st @ [trim line]
       \<and> commandHistory (step E (step E st (Change line)) enter) =
           take 50 (trim line # filter (\<lambda>c. c \<noteq> trim line) (commandHistory st))
       \<and> historyIndex (step E (step E st (Change line)) enter) = - 1"
proof -
  define st1 where "st1 = echoLines 0 [line] (st\<lparr>currentLine := line\<rparr>)"
  define st2 where "st2 = stateOf (executeCommand E (trim line) st1)"
  have d: "executeCommand E (trim line) st1 = Done st2"
    unfolding st2_def using assms(3) by (rule executeCommand_Done)
  have h: "handleKeyDown E \<lparr>key = KeyEnter, ctrlKey = False, shiftKey = False\<rparr>
             (st\<lparr>currentLine := line\<rparr>) =
           finishSubmit (executeCommand E (trim line) st1)"
    unfolding st1_def using assms(1,2) by (simp add: handleKeyDown_def Let_def)
  have r: "submitted st2 = submitted st @ [trim line]"
    "commandHistory st2 = take 50 (trim line # filter (\<lambda>c. c \<noteq> trim line) (commandHistory st))"
    "historyIndex st2 = - 1"
    unfolding st2_def st1_def by (simp_all add: executeCommand_recall)
  have "step E (step E st (Change line)) enter =
      st2\<lparr>buffer := [], currentLine := [], isMultiLine := False\<rparr>"
    unfolding enter_def step.simps h d by (simp add: finishSubmit_def)
  then show ?thesis
    using r by simp
qed

lemma two_selects_eval:
  "isCommandComplete (asc ''SELECT * FROM students;'')"
  "isCommandComplete (asc ''SELECT * FROM products;'')"
  "trim (asc ''SELECT * FROM students;'') = asc ''SELECT * FROM students;''"
  "trim (asc ''SELECT * FROM products;'') = asc ''SELECT * FROM products;''"
  "\<not> isDescribe (asc ''SELECT * FROM students;'')"
  "\<not> isDescribe (asc ''SELECT * FROM products;'')"
  by (simp_all add: isCommandComplete_def specialCommands_def vietnameseToSQL_def isDescribe_def
      eval_simps)

lemma run_append: "run E (xs @ ys) st = run E ys (run E xs st)"
  by (simp add: run_def)

lemma run_Cons: "run E (a # as) st = run E as (step E st a)"
  by (simp add: run_def)

lemma run_Nil: "run E [] st = st"
  by (simp add: run_def)

lemma after_two_selects:
  fixes E :: "('db, 'n) env" and st :: "('db, 'n) state"
  assumes "buffer st = []"
  defines "s4 \<equiv> run E [Change (asc ''SELECT * FROM students;''), enter,
                         Change (asc ''SELECT * FROM products;''), enter] st"
  shows "buffer s4 = []" "currentLine s4 = []" "historyIndex s4 = - 1"
    "submitted s4 = submitted st @ [asc ''SELECT * FROM students;'', asc ''SELECT * FROM products;'']"
    "commandHistory s4 =
       take 50 (asc ''SELECT * FROM products;'' #
         filter (\<lambda>c. c \<noteq> asc ''SELECT * FROM products;'')
           (take 50 (asc ''SELECT * FROM students;'' #
              filter (\<lambda>c. c \<noteq> asc ''SELECT * FROM students;'') (commandHistory st))))"
proof -
  define s2 where "s2 = step E (step E st (Change (asc ''SELECT * FROM students;''))) enter"
  have s2: "buffer s2 = []" "submitted s2 = submitted st @ [asc ''SELECT * FROM students;'']"
    "commandHistory s2 = take 50 (asc ''SELECT * FROM students;'' #
        filter (\<lambda>c. c \<noteq> asc ''SELECT * FROM students;'') (commandHistory st))"
    unfolding s2_def
    using submit_line [OF assms(1), of "asc ''SELECT * FROM students;''" E]
    by (simp_all add: two_selects_eval)
  have s4: "s4 = step E (step E s2 (Change (asc ''SELECT * FROM products;''))) enter"
    unfolding s4_def s2_def by (simp add: run_def)
  show "buffer s4 = []" "currentLine s4 = []" "historyIndex s4 = - 1"
    "submitted s4 = submitted st @ [asc ''SELECT * FROM students;'', asc ''SELECT * FROM products;'']"
    "commandHistory s4 =
       take 50 (asc ''SELECT * FROM products;'' #
         filter (\<lambda>c. c \<noteq> asc ''SELECT * FROM products;'')
           (take 50 (asc ''SELECT * FROM students;'' #
              filter (\<lambda>c. c \<noteq> asc ''SELECT * FROM students;'') (commandHistory st))))"
    unfolding s4
    using submit_line [OF s2(1), of "asc ''SELECT * FROM products;''" E]
    by (simp_all add: two_selects_eval s2)
qed

lemma students_neq_products:
  "asc ''SELECT * FROM students;'' \<noteq> asc ''SELECT * FROM products;''"
  by (simp add: asc_def)

subsection \<open>The recall keys\<close>

text \<open>
  Claim C5, evaluated on the code. After the statements \<open>SELECT * FROM students;\<close> (A)
  and \<open>SELECT * FROM products;\<close> (B) were submitted in a new session, the recall list
  is B, A, and Arrow Up with an empty input shows B. A second Arrow Up does not show A:
  the input line now holds B, the handler of Arrow Up asks for an empty line, and the key
  is left alone, with B on the line and the recall index at 0. Only when the line is
  emptied first does Arrow Up show A; from there Arrow Down shows B and then the empty
  line, as the handler of Arrow Down does not ask for an empty line.
\<close>

theorem arrow_up_stops_at_latest:
  "commandHistory
     (run E [Change (asc ''SELECT * FROM students;''), enter,
             Change (asc ''SELECT * FROM products;''), enter] (init d)) =
     [asc ''SELECT * FROM products;'', asc ''SELECT * FROM students;'']
   \<and> currentLine
     (run E [Change (asc ''SELECT * FROM students;''), enter,
             Change (asc ''SELECT * FROM products;''), enter, arrowUp] (init d)) =
     asc ''SELECT * FROM products;''
   \<and> currentLine
     (run E [Change (asc ''SELECT * FROM students;''), enter,
             Change (asc ''SELECT * FROM products;''), enter, arrowUp, arrowUp] (init d)) =
     asc ''SELECT * FROM products;''
   \<and> historyIndex
     (run E [Change (asc ''SELECT * FROM students;''), enter,
             Change (asc ''SELECT * FROM products;''), enter, arrowUp, arrowUp] (init d)) = 0
   \<and> currentLine
     (run E [Change (asc ''SELECT * FROM students;''), enter,
             Change (asc ''SELECT * FROM products;''), enter,
             arrowUp, Change [], arrowUp] (init d)) =
     asc ''SELECT * FROM students;''
   \<and> currentLine
     (run E [Change (asc ''SELECT * FROM students;''), enter,
             Change (asc ''SELECT * FROM products;''), enter,
             arrowUp, Change [], arrowUp, arrowDown] (init d)) =
     asc ''SELECT * FROM products;''
   \<and> currentLine
     (run E [Change (asc ''SELECT * FROM students;''), enter,
             Change (asc ''SELECT * FROM products;''), enter,
             arrowUp, Change [], arrowUp, arrowDown, arrowDown] (init d)) = []"
proof -
  define s4 where "s4 = run E [Change (asc ''SELECT * FROM students;''), enter,
                         Change (asc ''SELECT * FROM products;''), enter] (init d)"
  have b: "buffer (init d :: ('a, 'b) state) = []" "commandHistory (init d :: ('a, 'b) state) = []"
    by (simp_all add: init_def)
  have s4: "buffer s4 = []" "currentLine s4 = []" "historyIndex s4 = - 1"
    "commandHistory s4 = [asc ''SELECT * FROM products;'', asc ''SELECT * FROM students;'']"
    unfolding s4_def
    using after_two_selects [OF b(1), of E] students_neq_products
    by (simp_all add: b(2))
  have pre: "\<And>acts. run E (Change (asc ''SELECT * FROM students;'') # enter #
             Change (asc ''SELECT * FROM products;'') # enter # acts) (init d) = run E acts s4"
    unfolding s4_def by (simp add: run_def)
  have ne: "asc ''SELECT * FROM products;'' \<noteq> []" "asc ''SELECT * FROM students;'' \<noteq> []"
    by (simp_all add: asc_def)
  show ?thesis
    unfolding pre
    by (simp add: run_Cons run_Nil arrowUp_def arrowDown_def handleKeyDown_def s4 recall_def ne)
qed

subsection \<open>The recall list after a submission\<close>

lemma filter_neq_remove1:
  "distinct xs \<Longrightarrow> filter (\<lambda>c. c \<noteq> s) xs = remove1 s xs"
  by (induction xs) (auto simp add: remove1_idem)

text \<open>
  Claim C8, as stated, fails: the recall list holds texts that were never executed. With
  \<open>DROP TABLE students;\<close> held for confirmation, the answer \<open>no\<close> cancels it; the recall
  list is then \<open>no\<close>, \<open>DROP TABLE students;\<close>, while nothing was passed to the engine and
  the store is as before.
\<close>

theorem recall_list_holds_unexecuted_texts:
  "commandHistory (stateOf (executeCommand demoEnv (asc ''no'') demoPending)) =
     [asc ''no'', asc ''DROP TABLE students;'']
   \<and> executed (stateOf (executeCommand demoEnv (asc ''no'') demoPending)) = []
   \<and> database (stateOf (executeCommand demoEnv (asc ''no'') demoPending)) = [asc ''students'']"
proof -
  have c: "commandHistory demoPending = [asc ''DROP TABLE students;'']"
    unfolding demoPending_def by (simp add: executeCommand_recall demoInit_def init_def)
  obtain x xs where p: "pendingDangerousCommand demoPending = Some (x # xs)"
    using demoPending_state(3) by (simp add: asc_def)
  have n: "executeCommand demoEnv (asc ''no'') demoPending =
      Done (addEntry TInfo cancelText None
              ((addToCommandHistory (asc ''no'') demoPending)\<lparr>pendingDangerousCommand := None\<rparr>))"
    using p by (rule executeCommand_no) simp
  have ne: "asc ''DROP TABLE students;'' \<noteq> asc ''no''"
    by (simp add: asc_def)
  show ?thesis
    unfolding n using ne
    by (simp add: addEntry_def addToCommandHistory_def c demoPending_state)
qed

text \<open>
  Claim C8, amended. The recall list records what was submitted, not what was executed:
  \<open>executeCommand\<close> enters every text it is handed before it looks at it. In every state
  the session reaches from its start, whatever the keys and the engine, the recall list
  is the list of the texts handed to \<open>executeCommand\<close>, the latest first, each kept once,
  cut at 50 entries: it has no duplicates and at most 50 entries. Submitting a text puts
  it in front and removes its earlier copy; when the text is in the list already, the
  list keeps its length.
\<close>

theorem recall_history_invariant:
  assumes "st = run E acts (init d)"
  shows "commandHistory st = take 50 (rev (remdups (submitted st)))
       \<and> distinct (commandHistory st)
       \<and> length (commandHistory st) \<le> 50
       \<and> submitted (stateOf (executeCommand E s st)) = submitted st @ [s]
       \<and> commandHistory (stateOf (executeCommand E s st)) =
           take 50 (s # remove1 s (commandHistory st))
       \<and> (s \<in> set (commandHistory st) \<longrightarrow>
           commandHistory (stateOf (executeCommand E s st)) = s # remove1 s (commandHistory st))"
proof -
  have "recallInv st"
    unfolding assms by (rule run_recallInv) (rule init_recallInv)
  then have c: "commandHistory st = take 50 (rev (remdups (submitted st)))"
    by (simp add: recallInv_def)
  have d: "distinct (commandHistory st)"
    unfolding c by simp
  have l: "length (commandHistory st) \<le> 50"
    unfolding c by simp
  have u: "commandHistory (stateOf (executeCommand E s st)) =
      take 50 (s # remove1 s (commandHistory st))"
    using d by (simp add: executeCommand_recall filter_neq_remove1)
  have "length (s # remove1 s (commandHistory st)) \<le> 50" if "s \<in> set (commandHistory st)"
    using that l by (simp add: length_remove1)
  then have "commandHistory (stateOf (executeCommand E s st)) = s # remove1 s (commandHistory st)"
    if "s \<in> set (commandHistory st)"
    using that u by simp
  then show ?thesis
    using c d l u by (simp add: executeCommand_recall)
qed

theorem recall_history_invariant_witness:
  "commandHistory
     (run demoEnv [Change (asc ''SELECT * FROM students;''), enter,
                   Change (asc ''SELECT * FROM products;''), enter] (init [asc ''students''])) =
     [asc ''SELECT * FROM products;'', asc ''SELECT * FROM students;'']
   \<and> commandHistory
     (stateOf (executeCommand demoEnv (asc ''SELECT * FROM students;'')
        (run demoEnv [Change (asc ''SELECT * FROM students;''), enter,
                      Change (asc ''SELECT * FROM products;''), enter] (init [asc ''students''])))) =
     [asc ''SELECT * FROM students;'', asc ''SELECT * FROM products;'']"
proof -
  have b: "buffer (init [asc ''students''] :: (jsstring list, nat) state) = []"
    "commandHistory (init [asc ''students''] :: (jsstring list, nat) state) = []"
    by (simp_all add: init_def)
  have c: "commandHistory
     (run demoEnv [Change (asc ''SELECT * FROM students;''), enter,
                   Change (asc ''SELECT * FROM products;''), enter] (init [asc ''students''])) =
     [asc ''SELECT * FROM products;'', asc ''SELECT * FROM students;'']"
    using after_two_selects(5) [OF b(1), of demoEnv] students_neq_products
    by (simp add: b(2))
  show ?thesis
    using recall_history_invariant
      [where E = demoEnv and d = "[asc ''students'']" and s = "asc ''SELECT * FROM students;''"
         and acts = "[Change (asc ''SELECT * FROM students;''), enter,
                      Change (asc ''SELECT * FROM products;''), enter]", OF refl]
      students_neq_products
    by (simp add: c)
qed

subsection \<open>Translation of Vietnamese phrases\<close>

text \<open>
  Claim C7, evaluated on the code. The phrase \<^verbatim>\<open>l\u1EA5y t\u1EA5t c\u1EA3 t\u1EEB products\<close> is
  translated to \<open>SELECT * FROM products;\<close>. But the captured texts are put into the
  template by \<open>sql.replace('$i', match[i])\<close>, one group after the other, and a
  replacement text is not taken literally: in \<^verbatim>\<open>th\u00EAm 5, 'A$$' v\u00E0o products\<close> the
  captured \<open>$$\<close> comes out as a single \<open>$\<close>, and in \<^verbatim>\<open>t\u00ECm $2 trong t v\u1EDBi x\<close> the
  first captured text \<open>$2\<close> is put where the second belongs and is then replaced by the
  third.
\<close>

theorem translation_expands_dollar_patterns:
  "convertVietnameseToSQL
     (asc ''l'' @ [7845] @ asc ''y t'' @ [7845] @ asc ''t c'' @ [7843] @ asc '' t'' @ [7915]
      @ asc '' products'') = Some (asc ''SELECT * FROM products;'')
   \<and> convertVietnameseToSQL
     (asc ''th'' @ [234] @ asc ''m 5, '' @ [39] @ asc ''A$$'' @ [39] @ asc '' v'' @ [224]
      @ asc ''o products'') =
       Some (asc ''INSERT INTO products VALUES (5, '' @ [39] @ asc ''A$'' @ [39] @ asc '');'')
   \<and> convertVietnameseToSQL (asc ''t'' @ [236] @ asc ''m $2 trong t v'' @ [7899] @ asc ''i x'') =
       Some (asc ''SELECT t FROM $2 WHERE x;'')"
  by (simp add: convertVietnameseToSQL_def vietnameseToSQL_def replaceString_def natText_def
      eval_simps)

subsection \<open>A result without rows\<close>

lemma runEntries_empty_result:
  assumes "error r = None \<or> error r = Some []" and "rows r = []"
  shows "filter (\<lambda>(t, c, tbl). t \<noteq> TAi) (runEntries E sql ai learn r) =
           [(TInfo, queryOkText (case affectedRows r of None \<Rightarrow> 0 | Some n \<Rightarrow> n)
                      (numberText E (executionTime r)), None)]"
    and "list_all (\<lambda>(t, c, tbl). t \<noteq> TResult \<and> tbl = None) (runEntries E sql ai learn r)"
proof -
  have e: "(case error r of Some (e # es) \<Rightarrow> f e es | _ \<Rightarrow> g) = g" for f :: "nat \<Rightarrow> nat list \<Rightarrow> 'x" and g
    using assms(1) by (cases "error r") auto
  show "filter (\<lambda>(t, c, tbl). t \<noteq> TAi) (runEntries E sql ai learn r) =
           [(TInfo, queryOkText (case affectedRows r of None \<Rightarrow> 0 | Some n \<Rightarrow> n)
                      (numberText E (executionTime r)), None)]"
    unfolding runEntries_def e by (simp add: assms(2))
  show "list_all (\<lambda>(t, c, tbl). t \<noteq> TResult \<and> tbl = None) (runEntries E sql ai learn r)"
    unfolding runEntries_def e by (simp add: assms(2))
qed

lemma filter_entries:
  "map (\<lambda>e. (entry_type e, content e))
     (filter (\<lambda>e. entry_type e \<noteq> TAi)
        (map (\<lambda>(i, t, c, tbl). \<lparr>entry_id = i, entry_type = t, content = c, entry_table = tbl\<rparr>)
           (enumerate n es))) =
   map (\<lambda>(t, c, tbl). (t, c)) (filter (\<lambda>(t, c, tbl). t \<noteq> TAi) es)"
  by (induction es arbitrary: n) (simp_all add: split_beta)

lemma list_all_entries:
  "list_all (\<lambda>e. entry_type e \<noteq> TResult \<and> entry_table e = None \<and> entryGrid num e = None)
     (map (\<lambda>(i, t, c, tbl). \<lparr>entry_id = i, entry_type = t, content = c, entry_table = tbl\<rparr>)
        (enumerate n es)) =
   list_all (\<lambda>(t, c, tbl). t \<noteq> TResult \<and> tbl = None) es"
  by (induction es arbitrary: n) (simp_all add: split_beta entryGrid_def)

text \<open>
  Claim C10. When the engine returns without an error a result that has columns but no
  rows, \<open>runSQL\<close> adds to the transcript, apart from notes of the AI assistance, exactly
  one entry: the information \<open>Query OK, N row(s) affected\<close> with the time. None of the
  entries it adds is of type \<open>result\<close> or carries a table, so no grid (and no column
  header) is shown for any of them.
\<close>

theorem empty_result_set_shows_no_table:
  assumes "executeSQL E (database st) sql = (r, d)"
    and "error r = None \<or> error r = Some []"
    and "columns r \<noteq> []"
    and "rows r = []"
  shows "\<exists>new. history (runSQL E sql st) = history st @ new
       \<and> map (\<lambda>e. (entry_type e, content e)) (filter (\<lambda>e. entry_type e \<noteq> TAi) new) =
           [(TInfo, queryOkText (case affectedRows r of None \<Rightarrow> 0 | Some n \<Rightarrow> n)
                      (numberText E (executionTime r)))]
       \<and> list_all (\<lambda>e. entry_type e \<noteq> TResult \<and> entry_table e = None
                       \<and> entryGrid (numberText E) e = None) new"
proof -
  let ?es = "runEntries E sql (aiEnabled st) (learningMode st) r"
  let ?new = "map (\<lambda>(i, t, c, tbl). \<lparr>entry_id = i, entry_type = t, content = c, entry_table = tbl\<rparr>)
                (enumerate (idCounter st) ?es)"
  have h: "history (runSQL E sql st) = history st @ ?new"
    using assms(1) by (simp add: runSQL_def addEntries_history)
  have f: "map (\<lambda>e. (entry_type e, content e)) (filter (\<lambda>e. entry_type e \<noteq> TAi) ?new) =
           [(TInfo, queryOkText (case affectedRows r of None \<Rightarrow> 0 | Some n \<Rightarrow> n)
                      (numberText E (executionTime r)))]"
    by (simp only: filter_entries runEntries_empty_result(1) [OF assms(2,4)] list.map prod.case)
  have a: "list_all (\<lambda>e. entry_type e \<noteq> TResult \<and> entry_table e = None
                       \<and> entryGrid (numberText E) e = None) ?new"
    unfolding list_all_entries using assms(2,4) by (rule runEntries_empty_result(2))
  show ?thesis
    by (rule exI [of _ ?new]) (intro conjI h f a)
qed

theorem empty_result_set_shows_no_table_witness:
  "executeSQL demoEnv (database demoInit) (asc ''SELECT * FROM students WHERE id > 9;'') =
     (demoResult [asc ''id'', asc ''name''] [], [asc ''students''])
   \<and> (\<exists>new. history (runSQL demoEnv (asc ''SELECT * FROM students WHERE id > 9;'') demoInit) =
           history demoInit @ new
       \<and> map (\<lambda>e. (entry_type e, content e)) (filter (\<lambda>e. entry_type e \<noteq> TAi) new) =
           [(TInfo, asc ''Query OK, 0 row(s) affected (1ms)'')]
       \<and> list_all (\<lambda>e. entry_type e \<noteq> TResult \<and> entry_table e = None
                       \<and> entryGrid natText e = None) new)"
proof -
  have e: "executeSQL demoEnv (database demoInit) (asc ''SELECT * FROM students WHERE id > 9;'') =
     (demoResult [asc ''id'', asc ''name''] [], [asc ''students''])"
    by (simp add: demoEnv_def demoInit_def init_def demoExecute_def asc_def)
  have q: "queryOkText 0 (natText 1) = asc ''Query OK, 0 row(s) affected (1ms)''"
    by (simp add: queryOkText_def natText_def asc_def)
  have n: "numberText demoEnv = natText"
    by (simp add: demoEnv_def)
  show ?thesis
    using empty_result_set_shows_no_table [OF e] q
    by (simp add: demoResult_def n e)
qed

subsection \<open>The grid of a table\<close>











end
